theory Spec2Isabelle
  imports Complex_Main "HOL-Library.Multiset" "HOL-Library.Product_Lexorder" "HOL-Library.AList"
begin

section \<open>Outline inference for page layouts: the three iterations of the pipeline\<close>

text \<open>
  The repository holds three successive iterations of one pipeline (\<^verbatim>\<open>app/main1.py\<close>,
  \<^verbatim>\<open>app/main2.py\<close>, \<^verbatim>\<open>app/main3.py\<close>). Every function of the source is embedded under
  its own name with the iteration's digit appended (\<open>assign_headings1\<close> is
  \<^verbatim>\<open>assign_headings\<close> of \<^verbatim>\<open>main1.py\<close>).

  Conventions of the embedding:
  \<^item> Python floats (font sizes, coordinates, thresholds) are exact rationals (\<open>rat\<close>);
    rounding error of binary floating point is outside the model, and every concrete
    input below stays away from the thresholds.
  \<^item> Python \<^verbatim>\<open>str\<close> is \<open>string\<close>, one \<open>char\<close> per code point of ISO-8859-1; \<^verbatim>\<open>len\<close> is
    \<open>length\<close>.
  \<^item> Python's unbounded \<^verbatim>\<open>int\<close> is \<open>int\<close> (page numbers) or \<open>nat\<close> (counts, lengths).
  \<^item> an exception of the source is a value \<open>Inl e\<close> of \<open>py_error + 'a\<close>.
\<close>

subsection \<open>Strings\<close>

definition is_space :: "char \<Rightarrow> bool" where
  \<comment> \<open>\<^verbatim>\<open>str.isspace\<close> and the class \<^verbatim>\<open>\s\<close>: TAB..CR, FS..US, space, NEL, NBSP\<close>
  "is_space c = (let n = (of_char c :: nat) in
     (9 \<le> n \<and> n \<le> 13) \<or> (28 \<le> n \<and> n \<le> 32) \<or> n = 133 \<or> n = 160)"

definition is_digit :: "char \<Rightarrow> bool" where
  \<comment> \<open>the class \<^verbatim>\<open>\d\<close>\<close>
  "is_digit c = (let n = (of_char c :: nat) in 48 \<le> n \<and> n \<le> 57)"

definition is_upper :: "char \<Rightarrow> bool" where
  \<comment> \<open>\<^verbatim>\<open>str.isupper\<close> of a single character\<close>
  "is_upper c = (let n = (of_char c :: nat) in
     (65 \<le> n \<and> n \<le> 90) \<or> (192 \<le> n \<and> n \<le> 222 \<and> n \<noteq> 215))"

definition lower_char :: "char \<Rightarrow> char" where
  "lower_char c = (if is_upper c then char_of ((of_char c :: nat) + 32) else c)"

definition lower :: "string \<Rightarrow> string" where
  \<comment> \<open>\<^verbatim>\<open>str.lower\<close>\<close>
  "lower s = map lower_char s"

definition lstrip :: "string \<Rightarrow> string" where
  "lstrip s = dropWhile is_space s"

definition rstrip :: "string \<Rightarrow> string" where
  "rstrip s = rev (dropWhile is_space (rev s))"

definition strip :: "string \<Rightarrow> string" where
  \<comment> \<open>\<^verbatim>\<open>str.strip()\<close>\<close>
  "strip s = rstrip (lstrip s)"

fun starts_with :: "string \<Rightarrow> string \<Rightarrow> bool" where
  "starts_with [] s = True"
| "starts_with (p # ps) [] = False"
| "starts_with (p # ps) (c # cs) = (p = c \<and> starts_with ps cs)"

fun contains :: "string \<Rightarrow> string \<Rightarrow> bool" where
  \<comment> \<open>\<open>contains needle s\<close> is Python's \<^verbatim>\<open>needle in s\<close>\<close>
  "contains needle [] = (needle = [])"
| "contains needle (c # cs) = (starts_with needle (c # cs) \<or> contains needle cs)"

definition endswith_dot :: "string \<Rightarrow> bool" where
  \<comment> \<open>\<^verbatim>\<open>s.endswith('.')\<close>\<close>
  "endswith_dot s = (s \<noteq> [] \<and> last s = CHR ''.'')"

fun split_words :: "string \<Rightarrow> string list" where
  \<comment> \<open>\<^verbatim>\<open>str.split()\<close>: the maximal runs of characters that are not white space\<close>
  "split_words [] = []"
| "split_words (c # cs) =
     (if is_space c then split_words cs
      else (case split_words cs of
              [] \<Rightarrow> [[c]]
            | w # ws \<Rightarrow> (case cs of
                          [] \<Rightarrow> [[c]]
                        | d # ds \<Rightarrow> if is_space d then [c] # w # ws else (c # w) # ws)))"

subsection \<open>Regular expressions as backtracking matchers\<close>

text \<open>
  A pattern of \<^verbatim>\<open>re\<close> is a function from the text to the list of the remainders it can
  leave, in the order in which the backtracking matcher of \<^verbatim>\<open>re\<close> tries them (greedy
  alternatives first). \<^verbatim>\<open>re.match\<close> succeeds when the list is not empty, with the first
  remainder. The source repeats character classes only (\<^verbatim>\<open>\d+\<close>, \<^verbatim>\<open>\s+\<close>,
  \<^verbatim>\<open>[ \t\-:]*\<close>); \<^verbatim>\<open>(...){0,2}\<close> is two nested options.
\<close>

type_synonym matcher = "string \<Rightarrow> string list"

definition cls :: "(char \<Rightarrow> bool) \<Rightarrow> matcher" where
  "cls p s = (case s of [] \<Rightarrow> [] | c # cs \<Rightarrow> if p c then [cs] else [])"

definition seq :: "matcher \<Rightarrow> matcher \<Rightarrow> matcher" where
  "seq a b s = concat (map b (a s))"

definition opt :: "matcher \<Rightarrow> matcher" where
  "opt a s = a s @ [s]"

fun star_cls :: "(char \<Rightarrow> bool) \<Rightarrow> matcher" where
  "star_cls p [] = [[]]"
| "star_cls p (c # cs) = (if p c then star_cls p cs @ [c # cs] else [c # cs])"

definition plus_cls :: "(char \<Rightarrow> bool) \<Rightarrow> matcher" where
  "plus_cls p s = (case s of [] \<Rightarrow> [] | c # cs \<Rightarrow> if p c then star_cls p cs else [])"

definition rep02 :: "matcher \<Rightarrow> matcher" where
  \<comment> \<open>\<^verbatim>\<open>(a){0,2}\<close>: twice, else once, else not at all\<close>
  "rep02 a = opt (seq a (opt a))"

definition re_match :: "matcher \<Rightarrow> string \<Rightarrow> bool" where
  "re_match m s = (m s \<noteq> [])"

definition re_match_group1 :: "matcher \<Rightarrow> matcher \<Rightarrow> string \<Rightarrow> string option" where
  \<comment> \<open>\<^verbatim>\<open>re.match(r'^(g)rest', s)\<close>, then \<^verbatim>\<open>.group(1)\<close>: the text the group consumed in the
      first way of matching the group that lets the rest of the pattern match\<close>
  "re_match_group1 g rest s =
     (case filter (\<lambda>r. rest r \<noteq> []) (g s) of
        [] \<Rightarrow> None
      | r # _ \<Rightarrow> Some (take (length s - length r) s))"

definition is_dot :: "char \<Rightarrow> bool" where
  "is_dot c = (c = CHR ''.'')"

definition is_sep :: "char \<Rightarrow> bool" where
  \<comment> \<open>the class \<^verbatim>\<open>[ \t\-:]\<close>\<close>
  "is_sep c = (c = CHR '' '' \<or> c = CHR 0x09 \<or> c = CHR ''-'' \<or> c = CHR '':'')"

subsection \<open>Numbering Analyzer\<close>

definition numbering_group :: matcher where
  \<comment> \<open>\<^verbatim>\<open>\d+(\.\d+){0,2}\<close>\<close>
  "numbering_group = seq (plus_cls is_digit) (rep02 (seq (cls is_dot) (plus_cls is_digit)))"

definition level_of_numbering :: "string \<Rightarrow> nat" where
  \<comment> \<open>\<^verbatim>\<open>level = numbering.count(".") + 1; if level > 3: level = 3\<close>\<close>
  "level_of_numbering numbering =
     (let level = count_list numbering CHR ''.'' + 1 in if level > 3 then 3 else level)"

definition find_numbering_level1 :: "string \<Rightarrow> nat option" where
  \<comment> \<open>\<^verbatim>\<open>main1.py\<close>: \<^verbatim>\<open>re.match(r'^(\d+(\.\d+){0,2})[ \t\-:]*', text)\<close>\<close>
  "find_numbering_level1 txt =
     (case re_match_group1 numbering_group (star_cls is_sep) (strip txt) of
        Some numbering \<Rightarrow> Some (level_of_numbering numbering)
      | None \<Rightarrow> None)"

definition find_numbering_level2 :: "string \<Rightarrow> nat option" where
  \<comment> \<open>\<^verbatim>\<open>main2.py\<close>: \<^verbatim>\<open>re.match(r'^(\d+(\.\d+){0,2})[ \t\-:]+', text)\<close>\<close>
  "find_numbering_level2 txt =
     (case re_match_group1 numbering_group (plus_cls is_sep) (strip txt) of
        Some numbering \<Rightarrow> Some (level_of_numbering numbering)
      | None \<Rightarrow> None)"

definition dotted :: "nat \<Rightarrow> matcher" where
  \<comment> \<open>\<^verbatim>\<open>\d+\<close> followed by \<open>n\<close> times \<^verbatim>\<open>\.\d+\<close>\<close>
  "dotted n = ((\<lambda>m. seq m (seq (cls is_dot) (plus_cls is_digit))) ^^ n) (plus_cls is_digit)"

definition numbering_pattern3 :: "nat \<Rightarrow> matcher" where
  \<comment> \<open>the patterns of \<^verbatim>\<open>main3.py\<close>: \<^verbatim>\<open>^(\d+)\.?\s+\<close>, \<^verbatim>\<open>^(\d+\.\d+)\.?\s+\<close>,
      \<^verbatim>\<open>^(\d+\.\d+\.\d+)\.?\s+\<close> for \<open>i = 0, 1, 2\<close>\<close>
  "numbering_pattern3 i = seq (dotted i) (seq (opt (cls is_dot)) (plus_cls is_space))"

definition find_numbering_level3 :: "string \<Rightarrow> nat option" where
  \<comment> \<open>\<^verbatim>\<open>main3.py\<close>: the first of the three patterns that matches gives \<open>i + 1\<close>\<close>
  "find_numbering_level3 txt =
     (let t = strip txt in
      if re_match (numbering_pattern3 0) t then Some 1
      else if re_match (numbering_pattern3 1) t then Some 2
      else if re_match (numbering_pattern3 2) t then Some 3
      else None)"

subsection \<open>Data model\<close>

datatype py_error = ValueError | StatisticsError | IndexError

record TextElement =
  el_text :: string
  font_size :: rat
  font_name :: string
  is_bold :: bool
  is_italic :: bool
  x0 :: rat
  y0 :: rat
  page_num :: int

datatype level = H1 | H2 | H3

record OutlineEntry =
  o_level :: level
  o_text :: string
  o_page :: int

record outline_result =
  title :: string
  outline :: "OutlineEntry list"

text \<open>
  The layout as the extraction library hands it over (\<^verbatim>\<open>page.get_text("dict")\<close>): a
  document is a list of pages, a page a list of blocks, a text block (type 0) a list of
  lines, a line a list of spans.
\<close>

record span =
  s_text :: string
  s_size :: rat
  s_font :: string
  s_bbox :: "rat \<times> rat \<times> rat \<times> rat"

record block =
  b_type :: int
  b_lines :: "span list list"

type_synonym document = "block list list"

definition font_is_bold :: "string \<Rightarrow> bool" where
  "font_is_bold fnt = (contains ''Bold'' fnt \<or> contains ''bold'' (lower fnt))"

definition font_is_italic :: "string \<Rightarrow> bool" where
  "font_is_italic fnt =
     (contains ''Italic'' fnt \<or> contains ''Oblique'' fnt \<or> contains ''italic'' (lower fnt))"

definition span_element :: "int \<Rightarrow> span \<Rightarrow> TextElement" where
  \<comment> \<open>the constructor call of \<^verbatim>\<open>extract_text_elements\<close>; the constructor strips the text\<close>
  "span_element pg sp =
     \<lparr>el_text = strip (s_text sp), font_size = s_size sp, font_name = s_font sp,
      is_bold = font_is_bold (s_font sp), is_italic = font_is_italic (s_font sp),
      x0 = fst (s_bbox sp), y0 = fst (snd (s_bbox sp)), page_num = pg + 1\<rparr>"

definition extract_text_elements1 :: "document \<Rightarrow> TextElement list" where
  \<comment> \<open>\<^verbatim>\<open>main1.py\<close> and \<^verbatim>\<open>main3.py\<close>: one element per span that is not blank\<close>
  "extract_text_elements1 doc =
     concat (map (\<lambda>(pg, blocks).
       concat (map (\<lambda>b. if b_type b \<noteq> 0 then []
                          else concat (map (\<lambda>spans.
                                 map (span_element (int pg))
                                   (filter (\<lambda>sp. strip (s_text sp) \<noteq> []) spans))
                               (b_lines b)))
               blocks))
       (enumerate 0 doc))"

subsection \<open>Arithmetic helpers\<close>

definition py_round :: "nat \<Rightarrow> rat \<Rightarrow> rat" where
  \<comment> \<open>\<^verbatim>\<open>round(x, nd)\<close>: to \<open>nd\<close> decimals, ties to the even neighbour\<close>
  "py_round nd x =
     (let m = x * 10 ^ nd; f = \<lfloor>m\<rfloor>; d = m - of_int f;
          r = (if d < 1 / 2 then f else if 1 / 2 < d then f + 1
               else if even f then f else f + 1)
      in of_int r / 10 ^ nd)"

definition mean :: "rat list \<Rightarrow> rat" where
  \<comment> \<open>\<^verbatim>\<open>statistics.mean\<close> of a list that is not empty\<close>
  "mean xs = sum_list xs / of_nat (length xs)"

fun py_max :: "('a::linorder) list \<Rightarrow> py_error + 'a" where
  \<comment> \<open>\<^verbatim>\<open>max\<close> of a sequence: \<^verbatim>\<open>ValueError\<close> on the empty one\<close>
  "py_max [] = Inl ValueError"
| "py_max (x # xs) = Inr (fold max xs x)"

definition sort_desc :: "rat list \<Rightarrow> rat list" where
  \<comment> \<open>\<^verbatim>\<open>sorted(xs, reverse=True)\<close> on numbers\<close>
  "sort_desc xs = rev (sort xs)"

subsection \<open>Font Size Clusterer\<close>

function cluster_loop :: "rat \<Rightarrow> rat list \<Rightarrow> py_error + rat list list" where
  \<comment> \<open>the \<^verbatim>\<open>while sizes:\<close> loop; the result lists the absorbed sizes of each cluster in
      the order the clusters are made. \<^verbatim>\<open>mean\<close> of an empty cluster raises.\<close>
  "cluster_loop tolerance [] = Inr []"
| "cluster_loop tolerance (base # rest) =
     (let cluster = filter (\<lambda>s. \<bar>s - base\<bar> \<le> tolerance) (base # rest) in
      if cluster = [] then Inl StatisticsError
      else (case cluster_loop tolerance (fold remove1 cluster (base # rest)) of
              Inl e \<Rightarrow> Inl e
            | Inr groups \<Rightarrow> Inr (cluster # groups)))"
  by pat_completeness auto

lemma length_fold_remove1_filter:
  "length (fold remove1 (filter P xs) xs) = length xs - length (filter P xs)"
proof -
  have m: "mset (fold remove1 ys zs) = mset zs - mset ys" for ys zs :: "'a list"
    by (induction ys arbitrary: zs) simp_all
  have "size (mset (fold remove1 (filter P xs) xs)) = size (mset xs - mset (filter P xs))"
    by (simp only: m)
  also have "\<dots> = size (mset xs) - size (mset (filter P xs))"
    by (rule size_Diff_submset) (simp add: multiset_filter_subset)
  finally show ?thesis by (simp only: size_mset)
qed

termination cluster_loop
proof (relation "measure (\<lambda>(t, xs). length xs)", goal_cases)
  case 1
  show ?case by simp
next
  case (2 tolerance base rest cluster)
  then have "length cluster > 0" by simp
  moreover have "length (fold remove1 cluster (base # rest)) = length (base # rest) - length cluster"
    using 2(1) length_fold_remove1_filter[of "\<lambda>s. \<bar>s - base\<bar> \<le> tolerance" "base # rest"] by simp
  ultimately show ?case by simp
qed

definition rounded_sizes :: "nat \<Rightarrow> rat list \<Rightarrow> rat list" where
  \<comment> \<open>\<^verbatim>\<open>sorted(set(round(s, nd) for s in ...), reverse=True)\<close>\<close>
  "rounded_sizes nd fs = sort_desc (remdups (map (py_round nd) fs))"

definition cluster_sizes :: "rat \<Rightarrow> rat list \<Rightarrow> py_error + rat list" where
  \<comment> \<open>the loop, each cluster replaced by its mean, then \<^verbatim>\<open>clusters.sort(reverse=True)\<close>\<close>
  "cluster_sizes tolerance sizes =
     (case cluster_loop tolerance sizes of
        Inl e \<Rightarrow> Inl e
      | Inr groups \<Rightarrow> Inr (sort_desc (map mean groups)))"

definition cluster_font_sizes1 :: "rat \<Rightarrow> 'a TextElement_scheme list \<Rightarrow> py_error + rat list" where
  \<comment> \<open>\<^verbatim>\<open>main1.py\<close>; the callers leave \<^verbatim>\<open>tolerance\<close> at its default 0.5\<close>
  "cluster_font_sizes1 tolerance text_elements =
     cluster_sizes tolerance (rounded_sizes 2 (map font_size text_elements))"

definition cluster_font_sizes2 :: "rat \<Rightarrow> 'a TextElement_scheme list \<Rightarrow> py_error + rat list" where
  \<comment> \<open>\<^verbatim>\<open>main2.py\<close>: elements with a zero font size are left out; default tolerance 0.5\<close>
  "cluster_font_sizes2 tolerance text_elements =
     cluster_sizes tolerance
       (rounded_sizes 2 (map font_size (filter (\<lambda>el. font_size el \<noteq> 0) text_elements)))"

definition cluster_font_sizes3 :: "rat \<Rightarrow> 'a TextElement_scheme list \<Rightarrow> py_error + rat list" where
  \<comment> \<open>\<^verbatim>\<open>main3.py\<close>: sizes rounded to one decimal; default tolerance 0.3\<close>
  "cluster_font_sizes3 tolerance text_elements =
     cluster_sizes tolerance (rounded_sizes 1 (map font_size text_elements))"

subsection \<open>First iteration (\<^verbatim>\<open>main1.py\<close>)\<close>

definition frequent :: "string list \<Rightarrow> rat \<Rightarrow> string \<Rightarrow> bool" where
  \<comment> \<open>membership in \<^verbatim>\<open>set(txt for txt, cnt in Counter(texts).items() if cnt > 0.7*num_pages)\<close>\<close>
  "frequent texts num_pages txt =
     (txt \<in> set texts \<and> 7 / 10 * num_pages < rat_of_nat (count_list texts txt))"

definition remove_header_footer1 ::
  "rat \<Rightarrow> rat \<Rightarrow> 'a TextElement_scheme list \<Rightarrow> 'a TextElement_scheme list" where
  \<comment> \<open>called with the defaults \<^verbatim>\<open>y_threshold_top=50\<close>, \<^verbatim>\<open>y_threshold_bottom=750\<close>\<close>
  "remove_header_footer1 y_threshold_top y_threshold_bottom text_elements =
     (let top_texts = map el_text (filter (\<lambda>el. y0 el < y_threshold_top) text_elements);
          bottom_texts = map el_text (filter (\<lambda>el. y_threshold_bottom < y0 el) text_elements);
          num_pages = rat_of_nat (length (remdups (map page_num text_elements)))
      in filter (\<lambda>el.
           \<not> (y0 el < y_threshold_top \<and> frequent top_texts num_pages (el_text el)) \<and>
           \<not> (y_threshold_bottom < y0 el \<and> frequent bottom_texts num_pages (el_text el)))
         text_elements)"

definition score1 :: "'a TextElement_scheme \<Rightarrow> rat" where
  \<comment> \<open>\<^verbatim>\<open>el.y0 + abs(el.x0 - center_x)*0.5\<close> with \<^verbatim>\<open>center_x = 595 / 2\<close>\<close>
  "score1 el = y0 el + \<bar>x0 el - 595 / 2\<bar> * (1 / 2)"

definition detect_title1 :: "'a TextElement_scheme list \<Rightarrow> py_error + string" where
  "detect_title1 text_elements =
     (let first_page_elements = filter (\<lambda>el. page_num el = 1) text_elements in
      if first_page_elements = [] then Inr []
      else (case py_max (map font_size first_page_elements) of
              Inl e \<Rightarrow> Inl e
            | Inr max_font_size \<Rightarrow>
                (case sort_key score1
                        (filter (\<lambda>el. \<bar>font_size el - max_font_size\<bar> < 1 / 5) first_page_elements) of
                   [] \<Rightarrow> Inl IndexError
                 | c # _ \<Rightarrow> Inr (el_text c))))"

definition level_map :: "rat list \<Rightarrow> rat \<rightharpoonup> level" where
  \<comment> \<open>the dictionary \<^verbatim>\<open>font_size_to_level\<close> of \<^verbatim>\<open>main1.py\<close>, filled from the sorted heading sizes\<close>
  "level_map heading_font_sizes =
     (let m0 = Map.empty;
          m1 = (if heading_font_sizes \<noteq> [] then m0(heading_font_sizes ! 0 \<mapsto> H1) else m0);
          m2 = (if 1 < length heading_font_sizes then m1(heading_font_sizes ! 1 \<mapsto> H2) else m1);
          m3 = (if 2 < length heading_font_sizes then m2(heading_font_sizes ! 2 \<mapsto> H3) else m2)
      in m3)"

definition heading_font_sizes1 :: "rat list \<Rightarrow> rat \<Rightarrow> rat list" where
  "heading_font_sizes1 font_clusters title_font_size =
     sort_desc (filter (\<lambda>fs. 3 / 10 < \<bar>fs - title_font_size\<bar>) font_clusters)"

definition font_size_to_level1 :: "rat list \<Rightarrow> rat \<Rightarrow> rat \<rightharpoonup> level" where
  "font_size_to_level1 font_clusters title_font_size =
     level_map (heading_font_sizes1 font_clusters title_font_size)"

definition closest_cluster1 :: "rat list \<Rightarrow> rat \<Rightarrow> rat option" where
  \<comment> \<open>\<^verbatim>\<open>font_clusters[clusters_diffs.index(min(clusters_diffs))]\<close>, \<^verbatim>\<open>None\<close> without clusters\<close>
  "closest_cluster1 font_clusters fs =
     (case map (\<lambda>c. \<bar>fs - c\<bar>) font_clusters of
        [] \<Rightarrow> None
      | d # ds \<Rightarrow>
          (let min_diff = fold min ds d
           in Some (font_clusters ! length (takeWhile (\<lambda>x. x \<noteq> min_diff) (d # ds)))))"

definition numbering_override :: "nat option \<Rightarrow> level \<Rightarrow> level" where
  \<comment> \<open>\<^verbatim>\<open>main1.py\<close>, \<^verbatim>\<open>main3.py\<close>: 1 gives H1, 2 gives H2, 3 and more give H3\<close>
  "numbering_override num_level lvl =
     (case num_level of
        None \<Rightarrow> lvl
      | Some n \<Rightarrow> if n = 1 then H1 else if n = 2 then H2 else if 3 \<le> n then H3 else lvl)"

fun prev_level_order :: "level \<Rightarrow> nat" where
  "prev_level_order H1 = 1"
| "prev_level_order H2 = 2"
| "prev_level_order H3 = 3"

fun heading_loop1 ::
  "(rat \<rightharpoonup> level) \<Rightarrow> rat list \<Rightarrow> nat \<Rightarrow> 'a TextElement_scheme list \<Rightarrow>
   (level \<times> 'a TextElement_scheme) list" where
  \<comment> \<open>the \<^verbatim>\<open>for el in text_elements\<close> loop of \<^verbatim>\<open>main1.py\<close>; the third argument is
      \<^verbatim>\<open>last_heading_level\<close>; the result lists the elements for which an entry is appended,
      each with its level\<close>
  "heading_loop1 m font_clusters last_heading_level [] = []"
| "heading_loop1 m font_clusters last_heading_level (el # els) =
     (if page_num el = 1 then heading_loop1 m font_clusters last_heading_level els
      else if length (el_text el) < 2 then heading_loop1 m font_clusters last_heading_level els
      else (case closest_cluster1 font_clusters (font_size el) of
              None \<Rightarrow> heading_loop1 m font_clusters last_heading_level els
            | Some closest_cluster \<Rightarrow>
                (case m closest_cluster of
                   None \<Rightarrow> heading_loop1 m font_clusters last_heading_level els
                 | Some lvl0 \<Rightarrow>
                     (let lvl = numbering_override (find_numbering_level1 (el_text el)) lvl0;
                          current_level_order = prev_level_order lvl
                      in if endswith_dot (el_text el)
                         then heading_loop1 m font_clusters current_level_order els
                         else (lvl, el) # heading_loop1 m font_clusters current_level_order els))))"

definition reading_order :: "'a TextElement_scheme list \<Rightarrow> 'a TextElement_scheme list" where
  \<comment> \<open>\<^verbatim>\<open>sorted(text_elements, key=lambda x: (x.page_num, x.y0, x.x0))\<close> (a stable sort)\<close>
  "reading_order text_elements = sort_key (\<lambda>x. (page_num x, y0 x, x0 x)) text_elements"

definition entry :: "level \<times> 'a TextElement_scheme \<Rightarrow> OutlineEntry" where
  \<comment> \<open>\<^verbatim>\<open>{"level": level, "text": el.text, "page": el.page_num}\<close>\<close>
  "entry le = \<lparr>o_level = fst le, o_text = el_text (snd le), o_page = page_num (snd le)\<rparr>"

definition emitted1 ::
  "'a TextElement_scheme list \<Rightarrow> rat list \<Rightarrow> rat \<Rightarrow> (level \<times> 'a TextElement_scheme) list" where
  "emitted1 text_elements font_clusters title_font_size =
     heading_loop1 (font_size_to_level1 font_clusters title_font_size) font_clusters 0
       (reading_order text_elements)"

definition assign_headings1 ::
  "'a TextElement_scheme list \<Rightarrow> rat list \<Rightarrow> rat \<Rightarrow> OutlineEntry list" where
  "assign_headings1 text_elements font_clusters title_font_size =
     map entry (emitted1 text_elements font_clusters title_font_size)"

definition title_font_size1 :: "rat list \<Rightarrow> rat" where
  \<comment> \<open>the argument of the call in \<^verbatim>\<open>process_pdf_file\<close>:
      \<^verbatim>\<open>max(font_clusters) if font_clusters else 0\<close>\<close>
  "title_font_size1 font_clusters = (case py_max font_clusters of Inl _ \<Rightarrow> 0 | Inr m \<Rightarrow> m)"

definition process_elements1 :: "TextElement list \<Rightarrow> py_error + outline_result" where
  \<comment> \<open>\<^verbatim>\<open>process_pdf_file\<close> of \<^verbatim>\<open>main1.py\<close> after the extraction\<close>
  "process_elements1 extracted =
     (let text_els = remove_header_footer1 50 750 extracted in
      case detect_title1 text_els of
        Inl e \<Rightarrow> Inl e
      | Inr ttl \<Rightarrow>
          (case cluster_font_sizes1 (1 / 2) text_els of
             Inl e \<Rightarrow> Inl e
           | Inr font_clusters \<Rightarrow>
               Inr \<lparr>title = ttl,
                    outline = assign_headings1 text_els font_clusters
                                (title_font_size1 font_clusters)\<rparr>))"

definition process_pdf_file1 :: "document \<Rightarrow> py_error + outline_result" where
  "process_pdf_file1 doc = process_elements1 (extract_text_elements1 doc)"

subsection \<open>Third iteration (\<^verbatim>\<open>main3.py\<close>)\<close>

definition lit :: "char \<Rightarrow> matcher" where
  "lit c = cls (\<lambda>x. x = c)"

definition at_end :: "string \<Rightarrow> bool" where
  \<comment> \<open>\<^verbatim>\<open>$\<close>: at the end of the text, or before a line feed that ends it\<close>
  "at_end r = (r = [] \<or> r = [CHR 0x0A])"

definition all_digits :: "string \<Rightarrow> bool" where
  \<comment> \<open>\<^verbatim>\<open>re.match(r'^\d+$', s)\<close>\<close>
  "all_digits s = list_ex at_end (plus_cls is_digit s)"

definition not_newline :: "char \<Rightarrow> bool" where
  \<comment> \<open>the class of \<^verbatim>\<open>.\<close>\<close>
  "not_newline c = (c \<noteq> CHR 0x0A)"

definition n_of_m :: matcher where
  \<comment> \<open>\<^verbatim>\<open>.*\d+\s+of\s+\d+.*\<close>\<close>
  "n_of_m =
     seq (star_cls not_newline) (seq (plus_cls is_digit) (seq (plus_cls is_space)
       (seq (lit CHR ''o'') (seq (lit CHR ''f'') (seq (plus_cls is_space)
         (seq (plus_cls is_digit) (star_cls not_newline)))))))"

definition copyright_sign :: string where
  \<comment> \<open>the one-character string \<^verbatim>\<open>'\xa9'\<close>\<close>
  "copyright_sign = [CHR 0xA9]"

fun join :: "string \<Rightarrow> string list \<Rightarrow> string" where
  \<comment> \<open>\<^verbatim>\<open>sep.join(parts)\<close>\<close>
  "join sep [] = []"
| "join sep [x] = x"
| "join sep (x # y # ys) = x @ sep @ join sep (y # ys)"

definition title_part_ok3 :: "string \<Rightarrow> bool" where
  \<comment> \<open>an element of the first five candidates that becomes a part of the title\<close>
  "title_part_ok3 t =
     (\<not> (all_digits t \<or> contains ''copyright'' (lower t) \<or> contains ''page'' (lower t))
      \<and> 2 < length t)"

definition detect_title3 :: "'a TextElement_scheme list \<Rightarrow> py_error + string" where
  "detect_title3 text_elements =
     (let first_page_elements = filter (\<lambda>el. page_num el = 1) text_elements in
      if first_page_elements = [] then Inr []
      else (case py_max (map font_size first_page_elements) of
              Inl e \<Rightarrow> Inl e
            | Inr max_font_size \<Rightarrow>
                (let title_candidates =
                       sort_key y0 (filter (\<lambda>el. \<bar>font_size el - max_font_size\<bar> < 1)
                                      first_page_elements);
                     title_parts = filter title_part_ok3 (map el_text (take 5 title_candidates))
                 in if title_parts \<noteq> [] then Inr (join ''  '' title_parts)
                    else (case title_candidates of
                            [] \<Rightarrow> Inr []
                          | c # _ \<Rightarrow> Inr (el_text c)))))"

definition looks_like_boilerplate3 :: "string \<Rightarrow> bool" where
  \<comment> \<open>the inner test of \<^verbatim>\<open>remove_header_footer\<close>: a keyword, \<^verbatim>\<open>N of M\<close>, or a short text\<close>
  "looks_like_boilerplate3 t =
     (list_ex (\<lambda>keyword. contains keyword (lower t))
        [''page'', ''version'', copyright_sign, ''copyright'']
      \<or> re_match n_of_m (lower t)
      \<or> length t < 10)"

definition repetitive3 :: "'a TextElement_scheme list \<Rightarrow> string \<Rightarrow> bool" where
  \<comment> \<open>membership in \<^verbatim>\<open>repetitive_texts\<close>\<close>
  "repetitive3 text_elements t =
     (let texts = map el_text text_elements;
          num_pages = length (remdups (map page_num text_elements))
      in t \<in> set texts
         \<and> max 3 (rat_of_nat num_pages * (1 / 2)) \<le> rat_of_nat (count_list texts t)
         \<and> looks_like_boilerplate3 t)"

definition remove_header_footer3 :: "'a TextElement_scheme list \<Rightarrow> 'a TextElement_scheme list" where
  "remove_header_footer3 text_elements =
     filter (\<lambda>el. \<not> repetitive3 text_elements (el_text el)) text_elements"

definition is_AZ :: "char \<Rightarrow> bool" where
  \<comment> \<open>the class \<^verbatim>\<open>[A-Z]\<close>\<close>
  "is_AZ c = (let n = (of_char c :: nat) in 65 \<le> n \<and> n \<le> 90)"

definition numbered_heading :: matcher where
  \<comment> \<open>\<^verbatim>\<open>^\d+[\.\d\s]*[A-Z]\<close>\<close>
  "numbered_heading =
     seq (plus_cls is_digit)
       (seq (star_cls (\<lambda>c. is_dot c \<or> is_digit c \<or> is_space c)) (cls is_AZ))"

definition heading_words :: "string list" where
  "heading_words =
     [''introduction'', ''overview'', ''content'', ''references'', ''acknowledgements'',
      ''history'', ''outcomes'', ''requirements'', ''structure'', ''audience'', ''objectives'']"

definition is_heading_like :: "string \<Rightarrow> bool" where
  "is_heading_like txt =
     (let t = strip txt in
      if length t < 3 then False
      else if all_digits t \<or> contains ''version'' (lower t) \<or> contains ''page'' (lower t)
              \<or> contains copyright_sign t \<or> contains ''copyright'' (lower t) then False
      else if re_match numbered_heading t then True
      else if list_ex (\<lambda>word. contains word (lower t)) heading_words then True
      else if is_upper (hd t) \<and> 5 \<le> length t \<and> length t \<le> 100 then True
      else False)"

definition heading_font_sizes3 :: "rat list \<Rightarrow> rat \<Rightarrow> rat list" where
  "heading_font_sizes3 font_clusters title_font_size =
     sort_desc (filter (\<lambda>fs. 1 / 2 < \<bar>fs - title_font_size\<bar>) font_clusters)"

definition font_size_to_level3 :: "rat list \<Rightarrow> rat \<rightharpoonup> level" where
  \<comment> \<open>\<^verbatim>\<open>for i, fs in enumerate(heading_font_sizes)\<close>: index 0 is H1, index 1 is H2, every
      other index is H3\<close>
  "font_size_to_level3 heading_font_sizes =
     fold (\<lambda>(i, fs) m. m(fs \<mapsto> (if i = 0 then H1 else if i = 1 then H2 else H3)))
       (enumerate 0 heading_font_sizes) Map.empty"

definition closest3 :: "rat list \<Rightarrow> rat \<Rightarrow> (rat \<times> rat) option" where
  \<comment> \<open>the search loop: the pair \<^verbatim>\<open>(closest_font_size, min_diff)\<close>; \<open>None\<close> is the
      initial \<^verbatim>\<open>(None, inf)\<close>\<close>
  "closest3 heading_font_sizes fsz =
     fold (\<lambda>fs best.
             (let diff = \<bar>fsz - fs\<bar> in
              case best of
                None \<Rightarrow> Some (fs, diff)
              | Some (c, min_diff) \<Rightarrow> if diff < min_diff then Some (fs, diff) else best))
       heading_font_sizes None"

fun heading_loop3 ::
  "(rat \<rightharpoonup> level) \<Rightarrow> rat list \<Rightarrow> 'a TextElement_scheme list \<Rightarrow>
   (level \<times> 'a TextElement_scheme) list" where
  "heading_loop3 m heading_font_sizes [] = []"
| "heading_loop3 m heading_font_sizes (el # els) =
     (if page_num el = 1 then heading_loop3 m heading_font_sizes els
      else if \<not> is_heading_like (el_text el) then heading_loop3 m heading_font_sizes els
      else (case closest3 heading_font_sizes (font_size el) of
              None \<Rightarrow> heading_loop3 m heading_font_sizes els
            | Some (closest_font_size, min_diff) \<Rightarrow>
                if 1 < min_diff then heading_loop3 m heading_font_sizes els
                else (numbering_override (find_numbering_level3 (el_text el))
                        (case m closest_font_size of None \<Rightarrow> H3 | Some lvl \<Rightarrow> lvl), el)
                     # heading_loop3 m heading_font_sizes els))"

definition emitted3 ::
  "'a TextElement_scheme list \<Rightarrow> rat list \<Rightarrow> rat \<Rightarrow> (level \<times> 'a TextElement_scheme) list" where
  "emitted3 text_elements font_clusters title_font_size =
     (let heading_font_sizes = heading_font_sizes3 font_clusters title_font_size
      in heading_loop3 (font_size_to_level3 heading_font_sizes) heading_font_sizes
           (reading_order text_elements))"

definition assign_headings3 ::
  "'a TextElement_scheme list \<Rightarrow> rat list \<Rightarrow> rat \<Rightarrow> OutlineEntry list" where
  "assign_headings3 text_elements font_clusters title_font_size =
     map entry (emitted3 text_elements font_clusters title_font_size)"

definition title_font_size3 :: "'a TextElement_scheme list \<Rightarrow> rat" where
  \<comment> \<open>\<^verbatim>\<open>max([el.font_size for el in first_page_elements]) if first_page_elements else 0\<close>\<close>
  "title_font_size3 text_els =
     (case py_max (map font_size (filter (\<lambda>el. page_num el = 1) text_els)) of
        Inl _ \<Rightarrow> 0
      | Inr m \<Rightarrow> m)"

definition process_elements3 :: "TextElement list \<Rightarrow> py_error + outline_result" where
  \<comment> \<open>\<^verbatim>\<open>process_pdf_file\<close> of \<^verbatim>\<open>main3.py\<close> after the extraction: the title is detected
      before the header/footer filter runs\<close>
  "process_elements3 extracted =
     (case detect_title3 extracted of
        Inl e \<Rightarrow> Inl e
      | Inr ttl \<Rightarrow>
          (let text_els = remove_header_footer3 extracted in
           case cluster_font_sizes3 (3 / 10) text_els of
             Inl e \<Rightarrow> Inl e
           | Inr font_clusters \<Rightarrow>
               Inr \<lparr>title = ttl,
                    outline = assign_headings3 text_els font_clusters
                                (title_font_size3 text_els)\<rparr>))"

definition process_pdf_file3 :: "document \<Rightarrow> py_error + outline_result" where
  "process_pdf_file3 doc = process_elements3 (extract_text_elements1 doc)"

subsection \<open>Second iteration (\<^verbatim>\<open>main2.py\<close>)\<close>

record TextElement2 = TextElement +
  el_w :: rat
  el_h :: rat
  block_no :: nat
  line_no :: nat

definition line_element2 :: "nat \<Rightarrow> nat \<Rightarrow> nat \<Rightarrow> span list \<Rightarrow> TextElement2 list" where
  \<comment> \<open>one line of \<^verbatim>\<open>extract_text_elements\<close>: the style of the first span that is not blank,
      the stripped texts joined by a space; no element for a line of blank spans\<close>
  "line_element2 pg bno lno spans =
     (case filter (\<lambda>sp. strip (s_text sp) \<noteq> []) spans of
        [] \<Rightarrow> []
      | sp # sps \<Rightarrow>
          (case s_bbox sp of (bx0, by0, bx1, by1) \<Rightarrow>
            [\<lparr>el_text = strip (join '' '' (map (\<lambda>s. strip (s_text s)) (sp # sps))),
              font_size = s_size sp, font_name = s_font sp,
              is_bold = font_is_bold (s_font sp), is_italic = font_is_italic (s_font sp),
              x0 = bx0, y0 = by0, page_num = int pg + 1,
              el_w = bx1 - bx0, el_h = by1 - by0, block_no = bno, line_no = lno\<rparr>]))"

definition extract_text_elements2 :: "document \<Rightarrow> TextElement2 list" where
  "extract_text_elements2 doc =
     concat (map (\<lambda>(pg, blocks).
       concat (map (\<lambda>(bno, b). if b_type b \<noteq> 0 then []
                          else concat (map (\<lambda>(lno, spans). line_element2 pg bno lno spans)
                                         (enumerate 0 (b_lines b))))
               (enumerate 0 blocks)))
       (enumerate 0 doc))"

definition remove_header_footer2 ::
  "rat \<Rightarrow> rat \<Rightarrow> 'a TextElement_scheme list \<Rightarrow> py_error + 'a TextElement_scheme list" where
  \<comment> \<open>\<^verbatim>\<open>num_pages = max(el.page_num for el in text_elements)\<close> raises on no elements;
      called with the defaults \<^verbatim>\<open>y_top=50\<close>, \<^verbatim>\<open>y_bottom=750\<close>\<close>
  "remove_header_footer2 y_top y_bottom text_elements =
     (case py_max (map page_num text_elements) of
        Inl e \<Rightarrow> Inl e
      | Inr num_pages \<Rightarrow>
          (let headers = map el_text (filter (\<lambda>el. y0 el < y_top) text_elements);
               footers = map el_text (filter (\<lambda>el. y_bottom < y0 el) text_elements)
           in Inr (filter (\<lambda>el.
                     \<not> (frequent headers (rat_of_int num_pages) (el_text el) \<and> y0 el < y_top) \<and>
                     \<not> (frequent footers (rat_of_int num_pages) (el_text el) \<and> y_bottom < y0 el))
                   text_elements)))"

definition close_same :: "TextElement2 \<Rightarrow> TextElement2 \<Rightarrow> bool" where
  \<comment> \<open>\<open>close_same buf el\<close>: the line \<open>el\<close> continues the buffered element\<close>
  "close_same buf el =
     (page_num el = page_num buf \<and> block_no el = block_no buf
      \<and> \<bar>font_size el - font_size buf\<bar> < 1 / 5
      \<and> font_name el = font_name buf
      \<and> is_bold el = is_bold buf \<and> is_italic el = is_italic buf
      \<and> \<bar>x0 el - x0 buf\<bar> < 2
      \<and> 0 < y0 el - (y0 buf + el_h buf) \<and> y0 el - (y0 buf + el_h buf) < 15)"

fun merge_loop :: "TextElement2 option \<Rightarrow> TextElement2 list \<Rightarrow> TextElement2 list" where
  "merge_loop None [] = []"
| "merge_loop (Some buf) [] = [buf]"
| "merge_loop None (el # els) = merge_loop (Some el) els"
| "merge_loop (Some buf) (el # els) =
     (if close_same buf el
      then merge_loop (Some (buf\<lparr>el_text := el_text buf @ '' '' @ el_text el,
                                 el_h := el_h buf + el_h el\<rparr>)) els
      else buf # merge_loop (Some el) els)"

definition merge_multiline_blocks :: "TextElement2 list \<Rightarrow> TextElement2 list" where
  "merge_multiline_blocks text_elements =
     merge_loop None (sort_key (\<lambda>x. (page_num x, block_no x, line_no x)) text_elements)"

definition detect_title2 ::
  "'a TextElement_scheme list \<Rightarrow> bool \<Rightarrow> py_error + string \<times> rat option" where
  "detect_title2 text_elements single_page =
     (let page_elems = filter (\<lambda>el. page_num el = 1) text_elements in
      if page_elems = [] then Inr ([], None)
      else (case py_max (map font_size page_elems) of
              Inl e \<Rightarrow> Inl e
            | Inr max_size \<Rightarrow>
                (let candidates = filter (\<lambda>el. \<bar>font_size el - max_size\<bar> < 1 / 5) page_elems in
                 if candidates = [] then Inr ([], None)
                 else (let top_candidates = sort_key y0 (filter (\<lambda>el. y0 el < 250) candidates);
                           ttl = strip (join '' '' (map el_text top_candidates))
                       in if ttl = [] \<and> single_page then Inr ([], Some max_size)
                          else Inr (ttl, Some max_size)))))"

definition truthy :: "rat option \<Rightarrow> bool" where
  \<comment> \<open>the truth value of a float or \<^verbatim>\<open>None\<close>\<close>
  "truthy v = (case v of None \<Rightarrow> False | Some x \<Rightarrow> x \<noteq> 0)"

definition heading_clusters2 :: "rat list \<Rightarrow> rat option \<Rightarrow> rat list" where
  "heading_clusters2 font_clusters title_font_size =
     filter (\<lambda>fs. \<not> (truthy title_font_size \<and> \<bar>fs - the title_font_size\<bar> < 3 / 10)) font_clusters"

definition levels2 :: "rat list \<Rightarrow> (rat \<times> level) list" where
  \<comment> \<open>the dictionary \<^verbatim>\<open>levels\<close> with its keys in insertion order: the first three heading
      clusters get H1, H2, H3\<close>
  "levels2 heading_clusters =
     fold (\<lambda>(fs, tag) al. AList.update fs tag al) (zip heading_clusters [H1, H2, H3]) []"

definition best_cluster2 :: "(rat \<times> level) list \<Rightarrow> rat \<Rightarrow> (rat \<times> rat) option" where
  \<comment> \<open>\<^verbatim>\<open>min(candidates, key=lambda t: t[1])\<close>: the first of the nearest keys; \<open>None\<close>
      when there is no candidate\<close>
  "best_cluster2 levels fsz =
     (case map (\<lambda>(fs, tag). (fs, \<bar>fsz - fs\<bar>)) levels of
        [] \<Rightarrow> None
      | c # cs \<Rightarrow> Some (fold (\<lambda>x best. if snd x < snd best then x else best) cs c))"

definition numbering_override2 :: "nat option \<Rightarrow> level \<Rightarrow> level" where
  "numbering_override2 num_level lvl =
     (case num_level of
        None \<Rightarrow> lvl
      | Some n \<Rightarrow> if n = 1 then H1 else if n = 2 then H2 else if n = 3 then H3 else lvl)"

definition logical_page2 :: "int \<Rightarrow> bool \<Rightarrow> 'a TextElement_scheme \<Rightarrow> int" where
  "logical_page2 page_offset is_single_page el =
     (let page_idx = (if \<not> is_single_page then page_num el - 1 else 0)
      in if is_single_page then 0 else page_idx - page_offset)"

fun heading_loop2 ::
  "(rat \<times> level) list \<Rightarrow> string list \<Rightarrow> int \<Rightarrow> bool \<Rightarrow> nat \<Rightarrow> 'a TextElement_scheme list \<Rightarrow>
   (level \<times> 'a TextElement_scheme) list" where
  \<comment> \<open>the \<^verbatim>\<open>for el in text_elements\<close> loop of \<^verbatim>\<open>main2.py\<close>; the fifth argument is
      \<^verbatim>\<open>last_level\<close>. The nearest cluster is a key of \<open>levels\<close>, so the lookup
      \<^verbatim>\<open>levels[cluster_val]\<close> finds it and the branch \<open>None\<close> of \<open>map_of\<close> is never taken
      (lemma \<open>best_cluster2_key\<close>).\<close>
  "heading_loop2 levels title_lines page_offset is_single_page last_level [] = []"
| "heading_loop2 levels title_lines page_offset is_single_page last_level (el # els) =
     (let skip = heading_loop2 levels title_lines page_offset is_single_page last_level els in
      if logical_page2 page_offset is_single_page el < 0 then skip
      else if page_num el = 1 \<and> title_lines \<noteq> [] \<and> el_text el \<in> set title_lines then skip
      else if length (el_text el) < 2 then skip
      else (case best_cluster2 levels (font_size el) of
              None \<Rightarrow> skip
            | Some (cluster_val, delta) \<Rightarrow>
                if 3 / 10 < delta then skip
                else (case map_of levels cluster_val of
                        None \<Rightarrow> skip
                      | Some lvl0 \<Rightarrow>
                          (let lvl = numbering_override2 (find_numbering_level2 (el_text el)) lvl0 in
                           if endswith_dot (rstrip (el_text el)) then skip
                           else if 12 < length (split_words (el_text el)) then skip
                           else if prev_level_order lvl < last_level then skip
                           else (lvl, el)
                                # heading_loop2 levels title_lines page_offset is_single_page
                                    (prev_level_order lvl) els))))"

definition entry2 :: "int \<Rightarrow> bool \<Rightarrow> level \<times> 'a TextElement_scheme \<Rightarrow> OutlineEntry" where
  \<comment> \<open>\<^verbatim>\<open>{"level": level, "text": el.text, "page": int(logical_page)+1}\<close>\<close>
  "entry2 page_offset is_single_page le =
     \<lparr>o_level = fst le, o_text = el_text (snd le),
      o_page = logical_page2 page_offset is_single_page (snd le) + 1\<rparr>"

definition emitted2 ::
  "'a TextElement_scheme list \<Rightarrow> rat list \<Rightarrow> rat option \<Rightarrow> string list \<Rightarrow> int \<Rightarrow> bool \<Rightarrow>
   (level \<times> 'a TextElement_scheme) list" where
  "emitted2 text_elements font_clusters title_font_size title_lines page_offset is_single_page =
     heading_loop2 (levels2 (heading_clusters2 font_clusters title_font_size)) title_lines
       page_offset is_single_page 0 (reading_order text_elements)"

definition assign_headings2 ::
  "'a TextElement_scheme list \<Rightarrow> rat list \<Rightarrow> rat option \<Rightarrow> string list \<Rightarrow> int \<Rightarrow> bool \<Rightarrow>
   OutlineEntry list" where
  "assign_headings2 text_elements font_clusters title_font_size title_lines page_offset
     is_single_page =
     map (entry2 page_offset is_single_page)
       (emitted2 text_elements font_clusters title_font_size title_lines page_offset
          is_single_page)"

definition title_lines2 :: "'a TextElement_scheme list \<Rightarrow> rat option \<Rightarrow> string list" where
  \<comment> \<open>the texts of \<^verbatim>\<open>title_lines\<close> in \<^verbatim>\<open>process_pdf_file\<close>\<close>
  "title_lines2 elements_merged title_size =
     (if truthy title_size
      then map el_text (filter (\<lambda>l. \<bar>font_size l - the title_size\<bar> < 1 / 5 \<and> page_num l = 1)
                          elements_merged)
      else [])"

definition process_elements2 :: "nat \<Rightarrow> TextElement2 list \<Rightarrow> py_error + outline_result" where
  \<comment> \<open>\<^verbatim>\<open>process_pdf_file\<close> of \<^verbatim>\<open>main2.py\<close> after the extraction; \<open>num_pages\<close> is
      \<^verbatim>\<open>doc.page_count\<close>\<close>
  "process_elements2 num_pages raw_elements =
     (let single_page = (num_pages = 1) in
      case remove_header_footer2 50 750 raw_elements of
        Inl e \<Rightarrow> Inl e
      | Inr cleaned \<Rightarrow>
          (let elements_merged = merge_multiline_blocks cleaned in
           case cluster_font_sizes2 (1 / 2) elements_merged of
             Inl e \<Rightarrow> Inl e
           | Inr font_clusters \<Rightarrow>
               (case detect_title2 elements_merged single_page of
                  Inl e \<Rightarrow> Inl e
                | Inr (ttl, title_size) \<Rightarrow>
                    Inr \<lparr>title = ttl,
                         outline = assign_headings2 elements_merged font_clusters title_size
                                     (title_lines2 elements_merged title_size)
                                     (if \<not> single_page then 1 else 0) single_page\<rparr>)))"

definition process_pdf_file2 :: "document \<Rightarrow> py_error + outline_result" where
  "process_pdf_file2 doc = process_elements2 (length doc) (extract_text_elements2 doc)"

section \<open>Descriptions the code is compared with\<close>



definition cluster_partition_of :: "rat list \<Rightarrow> rat list list \<Rightarrow> py_error + rat list \<Rightarrow> bool" where
  \<comment> \<open>the groups partition the sizes, and the result lists the means of the groups in
      strictly descending order\<close>
  "cluster_partition_of sizes groups res =
     (concat groups = sizes
      \<and> (\<forall>s \<in> set sizes. \<exists>!i. i < length groups \<and> s \<in> set (groups ! i))
      \<and> res = Inr (map mean groups)
      \<and> sorted_wrt (>) (map mean groups))"

definition take_int :: "string \<Rightarrow> string option" where
  \<comment> \<open>the text after a leading integer (a maximal run of digits that is not empty)\<close>
  "take_int s = (case s of [] \<Rightarrow> None
                 | c # cs \<Rightarrow> if is_digit c then Some (dropWhile is_digit cs) else None)"

definition dot_segment :: "string \<Rightarrow> string option" where
  \<comment> \<open>the text after a period and an integer\<close>
  "dot_segment r = (case r of [] \<Rightarrow> None
                    | c # cs \<Rightarrow> if c = CHR ''.'' then take_int cs else None)"

primrec more_segments :: "nat \<Rightarrow> string \<Rightarrow> string option" where
  \<comment> \<open>the text after \<open>k\<close> further segments, each a period and an integer\<close>
  "more_segments 0 r = Some r"
| "more_segments (Suc k) r =
     (case dot_segment r of None \<Rightarrow> None | Some r' \<Rightarrow> more_segments k r')"

definition path_rest :: "nat \<Rightarrow> string \<Rightarrow> string option" where
  \<comment> \<open>the text after a leading path of \<open>k\<close> dot-separated integers, \<open>k \<ge> 1\<close>\<close>
  "path_rest k s = (case take_int s of None \<Rightarrow> None | Some r \<Rightarrow> more_segments (k - 1) r)"

definition numbering_with :: "(string \<Rightarrow> bool) \<Rightarrow> string \<Rightarrow> nat option" where
  \<comment> \<open>the depth \<open>k\<close> of the path of 1 to 3 integers that is followed by a separator\<close>
  "numbering_with separator t =
     (if (case path_rest 1 t of None \<Rightarrow> False | Some r \<Rightarrow> separator r) then Some 1
      else if (case path_rest 2 t of None \<Rightarrow> False | Some r \<Rightarrow> separator r) then Some 2
      else if (case path_rest 3 t of None \<Rightarrow> False | Some r \<Rightarrow> separator r) then Some 3
      else None)"

definition rejects :: "(char \<Rightarrow> bool) \<Rightarrow> matcher \<Rightarrow> bool" where
  "rejects p k = (\<forall>r. r \<noteq> [] \<and> p (hd r) \<longrightarrow> k r = [])"

definition sep_main3 :: "string \<Rightarrow> bool" where
  \<comment> \<open>a white-space character, or a period and a white-space character\<close>
  "sep_main3 r =
     (case r of
        [] \<Rightarrow> False
      | c # cs \<Rightarrow> is_space c \<or> (c = CHR ''.'' \<and> (case cs of [] \<Rightarrow> False | d # _ \<Rightarrow> is_space d)))"

definition dot_int :: matcher where
  \<comment> \<open>\<^verbatim>\<open>\.\d+\<close>\<close>
  "dot_int = seq (cls is_dot) (plus_cls is_digit)"

definition longest_path :: "string \<Rightarrow> (nat \<times> string) option" where
  \<comment> \<open>the longest leading path of at most three dot-separated integers: the number of its
      segments and the text after it\<close>
  "longest_path t =
     (case take_int t of
        None \<Rightarrow> None
      | Some r0 \<Rightarrow>
          (case dot_segment r0 of
             None \<Rightarrow> Some (1, r0)
           | Some r2 \<Rightarrow>
               (case dot_segment r2 of None \<Rightarrow> Some (2, r2) | Some r4 \<Rightarrow> Some (3, r4))))"

definition digit_start :: "string \<Rightarrow> bool" where
  "digit_start b = (b \<noteq> [] \<and> is_digit (hd b))"

definition dot_start :: "string \<Rightarrow> bool" where
  "dot_start b = (b \<noteq> [] \<and> hd b = CHR ''.'')"

definition sep_main2 :: "string \<Rightarrow> bool" where
  \<comment> \<open>a space, a tab, a dash or a colon\<close>
  "sep_main2 r = (case r of [] \<Rightarrow> False | c # cs \<Rightarrow> is_sep c)"

definition longest_numbering :: "string \<Rightarrow> nat option" where
  \<comment> \<open>the number of segments of the longest leading path of at most three integers\<close>
  "longest_numbering t =
     (if path_rest 3 t \<noteq> None then Some 3
      else if path_rest 2 t \<noteq> None then Some 2
      else if path_rest 1 t \<noteq> None then Some 1
      else None)"

definition spec_separator :: "string \<Rightarrow> bool" where
  \<comment> \<open>the separator as the specification words it: a space, a dash, a colon, or a period
      and a space\<close>
  "spec_separator r =
     (case r of
        [] \<Rightarrow> False
      | c # cs \<Rightarrow> c = CHR '' '' \<or> c = CHR ''-'' \<or> c = CHR '':''
                  \<or> (c = CHR ''.'' \<and> (case cs of [] \<Rightarrow> False | d # _ \<Rightarrow> d = CHR '' '')))"

definition spec_numbering :: "string \<Rightarrow> nat option" where
  \<comment> \<open>the analyzer as the specification words it: the depth of a leading path of 1 to 3
      dot-separated integers of the trimmed text that a separator follows\<close>
  "spec_numbering txt = numbering_with spec_separator (strip txt)"

definition two_level_form :: "string \<Rightarrow> bool" where
  \<comment> \<open>the form \<open>2.1 Something\<close>: an integer, a period, an integer, a space\<close>
  "two_level_form t =
     (case take_int t of
        None \<Rightarrow> False
      | Some r \<Rightarrow> (case dot_segment r of
                     None \<Rightarrow> False
                   | Some r' \<Rightarrow> (case r' of [] \<Rightarrow> False | c # _ \<Rightarrow> c = CHR '' '')))"

section \<open>Sample layouts\<close>

definition c2_title :: TextElement2 where
  "c2_title = \<lparr>el_text = ''Big Title'', font_size = 24, font_name = ''Helvetica-Bold'',
     is_bold = True, is_italic = False, x0 = 72, y0 = 100, page_num = 1,
     el_w = 200, el_h = 24, block_no = 0, line_no = 0\<rparr>"

definition c2_overview :: TextElement2 where
  "c2_overview = \<lparr>el_text = ''Overview'', font_size = 16, font_name = ''Helvetica-Bold'',
     is_bold = True, is_italic = False, x0 = 72, y0 = 300, page_num = 1,
     el_w = 120, el_h = 16, block_no = 1, line_no = 0\<rparr>"

definition c2_section :: TextElement2 where
  "c2_section = \<lparr>el_text = ''Scope'', font_size = 16, font_name = ''Helvetica-Bold'',
     is_bold = True, is_italic = False, x0 = 72, y0 = 120, page_num = 2,
     el_w = 120, el_h = 16, block_no = 0, line_no = 0\<rparr>"

definition c1_title :: TextElement where
  "c1_title = \<lparr>el_text = ''Small Title'', font_size = 12, font_name = ''Times-Roman'',
     is_bold = False, is_italic = False, x0 = 72, y0 = 100, page_num = 1\<rparr>"

definition c1_chapter :: TextElement where
  "c1_chapter = \<lparr>el_text = ''Chapter One'', font_size = 20, font_name = ''Times-Bold'',
     is_bold = True, is_italic = False, x0 = 72, y0 = 100, page_num = 2\<rparr>"

definition c1_section :: TextElement where
  "c1_section = \<lparr>el_text = ''Section A'', font_size = 16, font_name = ''Times-Bold'',
     is_bold = True, is_italic = False, x0 = 72, y0 = 200, page_num = 2\<rparr>"

definition c1_remarks :: TextElement where
  "c1_remarks = \<lparr>el_text = ''Remarks'', font_size = 12, font_name = ''Times-Roman'',
     is_bold = False, is_italic = False, x0 = 72, y0 = 300, page_num = 2\<rparr>"

definition c1_doc :: "TextElement list" where
  "c1_doc = [c1_title, c1_chapter, c1_section, c1_remarks]"

definition c10_clusters :: "rat list" where
  "c10_clusters = [24, 20, 16, 14, 12]"

definition c10_title :: TextElement where
  "c10_title = \<lparr>el_text = ''Handbook'', font_size = 24, font_name = ''Times-Bold'',
     is_bold = True, is_italic = False, x0 = 72, y0 = 100, page_num = 1\<rparr>"

definition c10_small :: TextElement where
  "c10_small = \<lparr>el_text = ''Details of the method'', font_size = 12,
     font_name = ''Times-Roman'', is_bold = False, is_italic = False, x0 = 72, y0 = 300,
     page_num = 2\<rparr>"






definition c5_sizes :: "rat list" where
  "c5_sizes = [12, 206 / 10, 201 / 10, 12004 / 1000, 202 / 10, 20]"

definition c5_els :: "TextElement list" where
  "c5_els = map (\<lambda>fs. \<lparr>el_text = ''x'', font_size = fs, font_name = ''Times-Roman'',
     is_bold = False, is_italic = False, x0 = 72, y0 = 100, page_num = 1\<rparr>) c5_sizes"

definition c7_title :: TextElement where
  "c7_title = \<lparr>el_text = ''Handbook'', font_size = 24, font_name = ''Times-Bold'',
     is_bold = True, is_italic = False, x0 = 72, y0 = 100, page_num = 1\<rparr>"

definition c7_section :: TextElement where
  "c7_section = \<lparr>el_text = ''2.1 Scope of work'', font_size = 16, font_name = ''Times-Bold'',
     is_bold = True, is_italic = False, x0 = 72, y0 = 120, page_num = 2\<rparr>"

section \<open>Properties\<close>

subsection \<open>The strict structural guard of the second iteration\<close>

lemma fold_pick_in:
  "fold (\<lambda>x best. if snd x < snd best then x else best) cs c \<in> set (c # cs)"
  by (induction cs arbitrary: c) auto

lemma best_cluster2_key:
  assumes "best_cluster2 levels fsz = Some (c, d)"
  shows "map_of levels c \<noteq> None"
proof -
  let ?cands = "map (\<lambda>(fs, tag). (fs, \<bar>fsz - fs\<bar>)) levels"
  from assms obtain c0 cs where cs: "?cands = c0 # cs"
    and b: "(c, d) = fold (\<lambda>x best. if snd x < snd best then x else best) cs c0"
    by (auto simp: best_cluster2_def split: list.splits)
  have "(c, d) \<in> set ?cands" unfolding cs b by (rule fold_pick_in)
  then have "c \<in> fst ` set levels" by force
  then show ?thesis by (simp add: map_of_eq_None_iff)
qed




subsection \<open>Page-1 exclusion\<close>

lemma heading_loop1_page:
  "e \<in> set (heading_loop1 m font_clusters last_level els) \<Longrightarrow>
     snd e \<in> set els \<and> page_num (snd e) \<noteq> 1"
  by (induction els arbitrary: last_level)
     (auto simp: Let_def split: if_splits option.splits)

lemma heading_loop3_page:
  "e \<in> set (heading_loop3 m hfs els) \<Longrightarrow> snd e \<in> set els \<and> page_num (snd e) \<noteq> 1"
  by (induction els) (auto simp: Let_def split: if_splits option.splits prod.splits)

lemma heading_loop2_page:
  "e \<in> set (heading_loop2 levels title_lines page_offset is_single_page last_level els) \<Longrightarrow>
     snd e \<in> set els \<and> 0 \<le> logical_page2 page_offset is_single_page (snd e)"
  by (induction els arbitrary: last_level)
     (auto simp: Let_def split: if_splits option.splits prod.splits)

text \<open>
  Claim C2 fails as stated: the second iteration treats a single-page document as its own
  logical page (\<^verbatim>\<open>if is_single_page: logical_page = 0\<close>) and skips only the title lines
  of page 1. For a one-page layout with a title of size 24 and the line \<open>Overview\<close> of size
  16, the line on physical page 1 is emitted as H1.
\<close>

theorem page1_single_page_counterexample:
  "process_elements2 1 [c2_title, c2_overview]
     = Inr \<lparr>title = ''Big Title'',
            outline = [\<lparr>o_level = H1, o_text = ''Overview'', o_page = 1\<rparr>]\<rparr>
   \<and> emitted2 [c2_title, c2_overview] [24, 16] (Some 24) [''Big Title''] 0 True
       = [(H1, c2_overview)]
   \<and> page_num c2_overview = 1"
  by code_simp

text \<open>
  Claim C2, amended. The first and the third iteration never emit an element of physical
  page 1. The second iteration never emits one for a document of several pages (the call
  with \<open>is_single_page = False\<close> and a page offset of at least 1, as \<open>process_elements2\<close>
  makes it): every emitted element lies on page 2 or later.
\<close>

theorem page1_exclusion:
  "(\<forall>e \<in> set (emitted1 text_elements font_clusters title_font_size). page_num (snd e) \<noteq> 1)
   \<and> (\<forall>e \<in> set (emitted3 text_elements font_clusters title_font_size). page_num (snd e) \<noteq> 1)
   \<and> (1 \<le> page_offset \<longrightarrow>
        (\<forall>e \<in> set (emitted2 text_elements2 font_clusters2 title_size title_lines page_offset
                      False).
           2 \<le> page_num (snd e)))"
proof (intro conjI ballI impI)
  fix e assume "e \<in> set (emitted1 text_elements font_clusters title_font_size)"
  then show "page_num (snd e) \<noteq> 1"
    unfolding emitted1_def by (rule heading_loop1_page[THEN conjunct2])
next
  fix e assume "e \<in> set (emitted3 text_elements font_clusters title_font_size)"
  then show "page_num (snd e) \<noteq> 1"
    unfolding emitted3_def Let_def by (rule heading_loop3_page[THEN conjunct2])
next
  fix e
  assume po: "1 \<le> page_offset"
    and e: "e \<in> set (emitted2 text_elements2 font_clusters2 title_size title_lines page_offset
                       False)"
  from e have "0 \<le> logical_page2 page_offset False (snd e)"
    unfolding emitted2_def by (rule heading_loop2_page[THEN conjunct2])
  with po show "2 \<le> page_num (snd e)"
    by (simp add: logical_page2_def)
qed

theorem page1_exclusion_witness:
  "(H1, c2_section) \<in> set (emitted2 [c2_title, c2_section] [24, 16] (Some 24) [''Big Title''] 1 False)
   \<and> (1::int) \<le> 1 \<and> 2 \<le> page_num (snd (H1, c2_section))
   \<and> (H1, c2_section) \<in> set (emitted1 [c2_title, c2_section] [24, 16] 24)
   \<and> page_num (snd (H1, c2_section)) \<noteq> 1
   \<and> (H1, c2_section) \<in> set (emitted3 [c2_title, c2_section] [24, 16] 24)"
proof -
  have m2: "(H1, c2_section)
      \<in> set (emitted2 [c2_title, c2_section] [24, 16] (Some 24) [''Big Title''] 1 False)"
    by code_simp
  have m1: "(H1, c2_section) \<in> set (emitted1 [c2_title, c2_section] [24, 16] 24)"
    by code_simp
  have m3: "(H1, c2_section) \<in> set (emitted3 [c2_title, c2_section] [24, 16] 24)"
    by code_simp
  have po: "(1::int) \<le> 1" by simp
  note t = page1_exclusion[of "[c2_title, c2_section]" "[24, 16]" 24 1
      "[c2_title, c2_section]" "[24, 16]" "Some 24" "[''Big Title'']"]
  from t m1 have "page_num (snd (H1, c2_section)) \<noteq> 1" by blast
  moreover from t po m2 have "2 \<le> page_num (snd (H1, c2_section))" by blast
  ultimately show ?thesis using m1 m2 m3 po by blast
qed

subsection \<open>Documents without text\<close>

text \<open>
  Claim C4 holds in the first and the third iteration and fails in the second:
  \<^verbatim>\<open>remove_header_footer\<close> of \<^verbatim>\<open>main2.py\<close> starts with
  \<^verbatim>\<open>max(el.page_num for el in text_elements)\<close>, which raises \<^verbatim>\<open>ValueError\<close> on a document
  without text elements, and \<^verbatim>\<open>process_pdf_file\<close> does not catch it.
\<close>

theorem empty_document_raises2:
  "remove_header_footer2 50 750 ([] :: TextElement2 list) = Inl ValueError
   \<and> process_elements2 num_pages [] = Inl ValueError
   \<and> process_pdf_file2 [] = Inl ValueError
   \<and> process_pdf_file2 [[\<lparr>b_type = 1, b_lines = []\<rparr>]] = Inl ValueError"
  by (simp add: remove_header_footer2_def process_elements2_def process_pdf_file2_def
      extract_text_elements2_def enumerate_eq_zip)

theorem empty_document_ok1:
  "process_elements1 [] = Inr \<lparr>title = [], outline = []\<rparr>
   \<and> process_pdf_file1 [] = Inr \<lparr>title = [], outline = []\<rparr>"
  by code_simp

theorem empty_document_ok3:
  "process_elements3 [] = Inr \<lparr>title = [], outline = []\<rparr>
   \<and> process_pdf_file3 [] = Inr \<lparr>title = [], outline = []\<rparr>"
  by code_simp

subsection \<open>Title exclusion\<close>

text \<open>
  Claim C1 fails in the first iteration. \<^verbatim>\<open>process_pdf_file\<close> of \<^verbatim>\<open>main1.py\<close> hands
  \<^verbatim>\<open>max(font_clusters)\<close> to \<^verbatim>\<open>assign_headings\<close> as the title's font size, the largest
  size of the whole document, while \<^verbatim>\<open>detect_title\<close> takes the title from the largest size
  of page 1. In \<open>c1_doc\<close> the title has size 12 and page 2 has sizes 20, 16 and 12: size 20 is
  left out of the mapping, size 12 (the title's) is mapped to H2 and a line of that size is
  emitted as H2. The third iteration computes the size from page 1 (\<open>title_font_size3\<close>).
\<close>

theorem title_size_mapped1:
  "remove_header_footer1 50 750 c1_doc = c1_doc
   \<and> detect_title1 c1_doc = Inr ''Small Title''
   \<and> title_font_size3 c1_doc = 12
   \<and> cluster_font_sizes1 (1 / 2) c1_doc = Inr [20, 16, 12]
   \<and> title_font_size1 [20, 16, 12] = 20
   \<and> font_size_to_level1 [20, 16, 12] 20 12 = Some H2
   \<and> font_size_to_level3 (heading_font_sizes3 [20, 16, 12] (title_font_size3 c1_doc)) 12 = None
   \<and> process_elements1 c1_doc
       = Inr \<lparr>title = ''Small Title'',
              outline = [\<lparr>o_level = H1, o_text = ''Section A'', o_page = 2\<rparr>,
                         \<lparr>o_level = H2, o_text = ''Remarks'', o_page = 2\<rparr>]\<rparr>"
  by code_simp

subsection \<open>Smaller clusters collapse into H3 in the third iteration\<close>

lemma font_size_to_level3_fold:
  assumes "2 \<le> n" "k \<in> set xs \<or> m0 k = Some H3"
  shows "fold (\<lambda>(i, fs) m. m(fs \<mapsto> (if i = 0 then H1 else if i = 1 then H2 else H3)))
     (enumerate n xs) m0 k = Some H3"
  using assms
proof (induction xs arbitrary: n m0)
  case Nil
  then show ?case by simp
next
  case (Cons x xs)
  have n: "n \<noteq> 0" "n \<noteq> 1" using Cons.prems(1) by auto
  have k: "k \<in> set xs \<or> (m0(x \<mapsto> H3)) k = Some H3"
    using Cons.prems(2) by auto
  have "2 \<le> Suc n" using Cons.prems(1) by simp
  with k have "fold (\<lambda>(i, fs) m. m(fs \<mapsto> (if i = 0 then H1 else if i = 1 then H2 else H3)))
     (enumerate (Suc n) xs) (m0(x \<mapsto> H3)) k = Some H3"
    by (rule Cons.IH[of "Suc n" "m0(x \<mapsto> H3)", rotated])
  then show ?case
    using n by (simp del: fun_upd_apply)
qed

lemma font_size_to_level3_H3:
  assumes "2 \<le> i" "i < length hfs"
  shows "font_size_to_level3 hfs (hfs ! i) = Some H3"
proof -
  have len: "length (take 2 hfs) = 2" using assms by simp
  have "enumerate 0 (take 2 hfs @ drop 2 hfs) = enumerate 0 (take 2 hfs) @ enumerate 2 (drop 2 hfs)"
    unfolding enumerate_append_eq len by (simp add: numeral_2_eq_2)
  then have split: "enumerate 0 hfs = enumerate 0 (take 2 hfs) @ enumerate 2 (drop 2 hfs)"
    by simp
  have "2 + (i - 2) = i" using assms by simp
  then have "hfs ! i = drop 2 hfs ! (i - 2)" using assms by (simp only: nth_drop)
  moreover have "i - 2 < length (drop 2 hfs)" using assms by simp
  ultimately have mem: "hfs ! i \<in> set (drop 2 hfs)"
    using nth_mem by metis
  show ?thesis
    unfolding font_size_to_level3_def split fold_append comp_def
    by (rule font_size_to_level3_fold) (use mem in simp_all)
qed

lemma heading_loop3_emits:
  assumes "el \<in> set els" "page_num el \<noteq> 1" "is_heading_like (el_text el)"
    "closest3 hfs (font_size el) = Some (c, d)" "d \<le> 1"
  shows "(numbering_override (find_numbering_level3 (el_text el))
            (case m c of None \<Rightarrow> H3 | Some lvl \<Rightarrow> lvl), el)
         \<in> set (heading_loop3 m hfs els)"
  using assms(1)
proof (induction els)
  case Nil
  then show ?case by simp
next
  case (Cons a els)
  show ?case
  proof (cases "a = el")
    case True
    then show ?thesis using assms(2-5) by simp
  next
    case False
    with Cons have "(numbering_override (find_numbering_level3 (el_text el))
            (case m c of None \<Rightarrow> H3 | Some lvl \<Rightarrow> lvl), el) \<in> set (heading_loop3 m hfs els)"
      by simp
    then show ?thesis
      by (simp split: option.splits prod.splits)
  qed
qed

text \<open>
  Claim C10. In the third iteration every heading cluster after the second one (index 2 and
  above in the descending list of clusters that are not the title's, so also the fourth and
  smaller ones) is mapped to H3. An element that is not on page 1, passes the content test,
  carries no numbering, and whose nearest heading cluster is such a cluster at distance at
  most 1.0 is emitted as an H3 entry.
\<close>

theorem smaller_clusters_collapse_to_H3:
  assumes "hfs = heading_font_sizes3 font_clusters title_font_size"
    and "2 \<le> i" and "i < length hfs"
  shows "font_size_to_level3 hfs (hfs ! i) = Some H3
    \<and> (el \<in> set text_elements \<and> page_num el \<noteq> 1 \<and> is_heading_like (el_text el)
         \<and> find_numbering_level3 (el_text el) = None
         \<and> closest3 hfs (font_size el) = Some (hfs ! i, d) \<and> d \<le> 1 \<longrightarrow>
         \<lparr>o_level = H3, o_text = el_text el, o_page = page_num el\<rparr>
           \<in> set (assign_headings3 text_elements font_clusters title_font_size))"
proof (intro conjI impI)
  show m: "font_size_to_level3 hfs (hfs ! i) = Some H3"
    using assms(2,3) by (rule font_size_to_level3_H3)
  assume a: "el \<in> set text_elements \<and> page_num el \<noteq> 1 \<and> is_heading_like (el_text el)
         \<and> find_numbering_level3 (el_text el) = None
         \<and> closest3 hfs (font_size el) = Some (hfs ! i, d) \<and> d \<le> 1"
  then have el: "el \<in> set text_elements" "page_num el \<noteq> 1" "is_heading_like (el_text el)"
    and num: "find_numbering_level3 (el_text el) = None"
    and cl: "closest3 hfs (font_size el) = Some (hfs ! i, d)" "d \<le> 1"
    by simp_all
  from el(1) have "el \<in> set (reading_order text_elements)"
    by (simp add: reading_order_def)
  from heading_loop3_emits[OF this el(2,3) cl, of "font_size_to_level3 hfs"]
  have "(H3, el) \<in> set (emitted3 text_elements font_clusters title_font_size)"
    by (simp add: emitted3_def Let_def assms(1)[symmetric] m num numbering_override_def)
  then have "entry (H3, el) \<in> entry ` set (emitted3 text_elements font_clusters title_font_size)"
    by (rule imageI)
  then show "\<lparr>o_level = H3, o_text = el_text el, o_page = page_num el\<rparr>
           \<in> set (assign_headings3 text_elements font_clusters title_font_size)"
    by (simp add: entry_def assign_headings3_def)
qed

theorem smaller_clusters_collapse_to_H3_witness:
  "heading_font_sizes3 c10_clusters 24 = [20, 16, 14, 12]
   \<and> font_size_to_level3 [20, 16, 14, 12] ([20, 16, 14, 12] ! 3) = Some H3
   \<and> \<lparr>o_level = H3, o_text = el_text c10_small, o_page = page_num c10_small\<rparr>
       \<in> set (assign_headings3 [c10_title, c10_small] c10_clusters 24)"
proof -
  have h: "[20, 16, 14, 12] = heading_font_sizes3 c10_clusters 24" by code_simp
  have i: "(2::nat) \<le> 3" "3 < length [20, 16, 14, 12 :: rat]" by simp_all
  have el: "c10_small \<in> set [c10_title, c10_small]" "page_num c10_small \<noteq> 1"
    by (simp_all add: c10_small_def)
  have hl: "is_heading_like (el_text c10_small)" by code_simp
  have num: "find_numbering_level3 (el_text c10_small) = None" by code_simp
  have cl: "closest3 [20, 16, 14, 12] (font_size c10_small) = Some ([20, 16, 14, 12] ! 3, 0)"
    by code_simp
  have d: "(0::rat) \<le> 1" by simp
  note t = smaller_clusters_collapse_to_H3[OF h i, of c10_small "[c10_title, c10_small]" 0]
  have m: "font_size_to_level3 [20, 16, 14, 12] ([20, 16, 14, 12] ! 3) = Some H3"
    by (rule t[THEN conjunct1])
  have e: "\<lparr>o_level = H3, o_text = el_text c10_small, o_page = page_num c10_small\<rparr>
       \<in> set (assign_headings3 [c10_title, c10_small] c10_clusters 24)"
    by (rule mp[OF t[THEN conjunct2]]) (intro conjI el hl num cl d)
  show ?thesis by (intro conjI h[symmetric] m e)
qed

subsection \<open>Scope of the header/footer removal\<close>









subsection \<open>The pipelines return\<close>






subsection \<open>A repeated header, end to end\<close>








subsection \<open>The clusters partition the sizes\<close>

lemma fold_remove1_prefix: "fold remove1 p (p @ q) = q"
  by (induction p) simp_all

lemma filter_eq_takeWhile_desc:
  assumes "sorted_wrt (>) (xs :: rat list)"
  shows "filter (\<lambda>s. b - s \<le> t) xs = takeWhile (\<lambda>s. b - s \<le> t) xs"
  using assms
proof (induction xs)
  case Nil
  then show ?case by simp
next
  case (Cons y ys)
  show ?case
  proof (cases "b - y \<le> t")
    case True
    then show ?thesis using Cons by simp
  next
    case False
    have "\<forall>z \<in> set ys. \<not> b - z \<le> t" using Cons.prems False by auto
    then have "filter (\<lambda>s. b - s \<le> t) ys = []" by (simp add: filter_empty_conv)
    then show ?thesis using False by simp
  qed
qed

lemma cluster_step:
  assumes "sorted_wrt (>) (base # rest)" "0 \<le> (tolerance :: rat)"
  shows "filter (\<lambda>s. \<bar>s - base\<bar> \<le> tolerance) (base # rest)
           = base # takeWhile (\<lambda>s. base - s \<le> tolerance) rest"
    and "fold remove1 (filter (\<lambda>s. \<bar>s - base\<bar> \<le> tolerance) (base # rest)) (base # rest)
           = dropWhile (\<lambda>s. base - s \<le> tolerance) rest"
proof -
  have lt: "\<bar>x - base\<bar> = base - x" if "x \<in> set rest" for x
  proof -
    have "x < base" using assms(1) that by simp
    then show ?thesis by (simp add: abs_if)
  qed
  have "filter (\<lambda>s. \<bar>s - base\<bar> \<le> tolerance) rest = filter (\<lambda>s. base - s \<le> tolerance) rest"
    by (rule filter_cong[OF refl]) (simp add: lt)
  also have "\<dots> = takeWhile (\<lambda>s. base - s \<le> tolerance) rest"
    using assms(1) by (intro filter_eq_takeWhile_desc) simp
  finally show 1: "filter (\<lambda>s. \<bar>s - base\<bar> \<le> tolerance) (base # rest)
           = base # takeWhile (\<lambda>s. base - s \<le> tolerance) rest"
    using assms(2) by simp
  have "fold remove1 (base # takeWhile (\<lambda>s. base - s \<le> tolerance) rest)
          ((base # takeWhile (\<lambda>s. base - s \<le> tolerance) rest) @ dropWhile (\<lambda>s. base - s \<le> tolerance) rest)
        = dropWhile (\<lambda>s. base - s \<le> tolerance) rest"
    by (rule fold_remove1_prefix)
  then show "fold remove1 (filter (\<lambda>s. \<bar>s - base\<bar> \<le> tolerance) (base # rest)) (base # rest)
           = dropWhile (\<lambda>s. base - s \<le> tolerance) rest"
    unfolding 1 by simp
qed

lemma sum_list_ge: "\<forall>x \<in> set xs. a \<le> x \<Longrightarrow> rat_of_nat (length xs) * a \<le> sum_list xs"
  by (induction xs) (auto simp: algebra_simps)

lemma sum_list_less:
  "xs \<noteq> [] \<Longrightarrow> \<forall>x \<in> set xs. x < b \<Longrightarrow> sum_list xs < rat_of_nat (length xs) * b"
proof (induction xs)
  case Nil
  then show ?case by simp
next
  case (Cons x xs)
  show ?case
  proof (cases "xs = []")
    case True
    then show ?thesis using Cons.prems by simp
  next
    case False
    with Cons have "sum_list xs < rat_of_nat (length xs) * b" by simp
    moreover have "x < b" using Cons.prems by simp
    ultimately show ?thesis by (simp add: algebra_simps)
  qed
qed

lemma mean_ge: "xs \<noteq> [] \<Longrightarrow> \<forall>x \<in> set xs. a \<le> x \<Longrightarrow> a \<le> mean xs"
  using sum_list_ge[of xs a]
  by (simp add: mean_def pos_le_divide_eq mult.commute)

lemma mean_less: "xs \<noteq> [] \<Longrightarrow> \<forall>x \<in> set xs. x < b \<Longrightarrow> mean xs < b"
  using sum_list_less[of xs b]
  by (simp add: mean_def pos_divide_less_eq mult.commute)

lemma filter_takeWhile_id: "filter P (takeWhile P xs) = takeWhile P xs"
  by (induction xs) auto

lemma dropWhile_none_desc:
  assumes "sorted_wrt (>) (xs :: rat list)" "z \<in> set (dropWhile (\<lambda>s. b - s \<le> t) xs)"
  shows "\<not> b - z \<le> t"
  using assms
proof (induction xs)
  case Nil
  then show ?case by simp
next
  case (Cons y ys)
  show ?case
  proof (cases "b - y \<le> t")
    case True
    then show ?thesis using Cons by simp
  next
    case False
    with Cons.prems(2) have "z = y \<or> z \<in> set ys" by simp
    then have "z \<le> y" using Cons.prems(1) by auto
    then show ?thesis using False by simp
  qed
qed

lemma sorted_wrt_dropWhile: "sorted_wrt R xs \<Longrightarrow> sorted_wrt R (dropWhile P xs)"
  by (induction xs) auto

lemma cluster_loop_sorted:
  assumes "0 \<le> tolerance" "sorted_wrt (>) sizes"
  shows "\<exists>groups. cluster_loop tolerance sizes = Inr groups \<and> concat groups = sizes
           \<and> [] \<notin> set groups \<and> sorted_wrt (>) (map mean groups)"
  using assms
proof (induction tolerance sizes rule: cluster_loop.induct)
  case (1 tolerance)
  then show ?case by simp
next
  case (2 tolerance base rest)
  let ?P = "\<lambda>s. base - s \<le> tolerance"
  let ?cluster = "filter (\<lambda>s. \<bar>s - base\<bar> \<le> tolerance) (base # rest)"
  let ?c = "base # takeWhile ?P rest"
  let ?r = "dropWhile ?P rest"
  have c: "?cluster = ?c"
    by (rule cluster_step(1)[OF 2(3) 2(2)])
  have r: "fold remove1 ?cluster (base # rest) = ?r"
    by (rule cluster_step(2)[OF 2(3) 2(2)])
  have ne: "?cluster \<noteq> []" by (simp only: c list.distinct simp_thms)
  have "sorted_wrt (>) rest" using 2(3) by simp
  then have "sorted_wrt (>) ?r" by (rule sorted_wrt_dropWhile)
  then have sr: "sorted_wrt (>) (fold remove1 ?cluster (base # rest))"
    by (simp only: r)
  have "\<exists>groups. cluster_loop tolerance ?r = Inr groups \<and> concat groups = ?r
           \<and> [] \<notin> set groups \<and> sorted_wrt (>) (map mean groups)"
    using 2(1)[OF refl ne 2(2) sr] by (simp only: r)
  then obtain groups where
    g: "cluster_loop tolerance ?r = Inr groups" "concat groups = ?r"
       "[] \<notin> set groups" "sorted_wrt (>) (map mean groups)"
    by (elim exE conjE)
  have lo: "base - tolerance \<le> mean ?c"
  proof (rule mean_ge)
    show "?c \<noteq> []" by simp
    have "base - tolerance \<le> x" if "x \<in> set (takeWhile ?P rest)" for x
    proof -
      have "base - x \<le> tolerance" using set_takeWhileD[OF that] by simp
      then show ?thesis by simp
    qed
    then show "\<forall>x \<in> set ?c. base - tolerance \<le> x"
      using 2(2) by simp
  qed
  have hi: "mean g < base - tolerance" if "g \<in> set groups" for g
  proof (rule mean_less)
    show "g \<noteq> []" using that g(3) by auto
    have "set g \<subseteq> set ?r" using that g(2)[symmetric] by auto
    moreover have "z < base - tolerance" if "z \<in> set ?r" for z
      using dropWhile_none_desc[of rest z base tolerance] 2(3) that by simp
    ultimately show "\<forall>x \<in> set g. x < base - tolerance" by blast
  qed
  have "cluster_loop tolerance (base # rest)
      = (case cluster_loop tolerance (fold remove1 ?cluster (base # rest)) of
           Inl e \<Rightarrow> Inl e | Inr gs \<Rightarrow> Inr (?cluster # gs))"
    using ne by (simp only: cluster_loop.simps Let_def if_False)
  moreover have r': "fold remove1 ?c (base # rest) = ?r" using r by (simp only: c)
  ultimately have "cluster_loop tolerance (base # rest) = Inr (?c # groups)"
    by (simp only: c r' g(1) sum.case)
  moreover have "concat (?c # groups) = base # rest" using g(2) by simp
  moreover have "[] \<notin> set (?c # groups)" using g(3) by simp
  moreover have "sorted_wrt (>) (map mean (?c # groups))"
  proof -
    have "mean g < mean ?c" if "g \<in> set groups" for g
      using hi[OF that] lo by simp
    then show ?thesis using g(4) by simp
  qed
  ultimately show ?case by blast
qed

lemma sort_desc_id: "sorted_wrt (>) xs \<Longrightarrow> sort_desc xs = xs"
proof -
  assume a: "sorted_wrt (>) xs"
  then have "sorted_wrt (<) (rev xs)" by (simp add: sorted_wrt_rev)
  then have "sorted (rev xs)" by (simp add: strict_sorted_iff)
  then have "sort xs = rev xs"
    by (intro properties_for_sort) simp_all
  then show ?thesis by (simp add: sort_desc_def)
qed

lemma rounded_sizes_desc: "sorted_wrt (>) (rounded_sizes nd fs)"
proof -
  have "sorted_wrt (<) (sort (remdups (map (py_round nd) fs)))"
    by (simp add: strict_sorted_iff)
  then show ?thesis
    by (simp add: rounded_sizes_def sort_desc_def sorted_wrt_rev)
qed

lemma exactly_one_group:
  assumes "distinct (concat groups)" "[] \<notin> set groups" "s \<in> set (concat groups)"
  shows "\<exists>!i. i < length groups \<and> s \<in> set (groups ! i)"
proof -
  from assms(3) obtain g where g: "g \<in> set groups" "s \<in> set g" by auto
  then obtain i where i: "i < length groups" "groups ! i = g"
    by (auto simp: in_set_conv_nth)
  have dg: "distinct groups"
    using assms(1,2) by (simp add: distinct_concat_iff removeAll_id)
  have disj: "\<And>ys zs. ys \<in> set groups \<Longrightarrow> zs \<in> set groups \<Longrightarrow> ys \<noteq> zs \<Longrightarrow> set ys \<inter> set zs = {}"
    using assms(1) by (simp add: distinct_concat_iff)
  have "j = i" if "j < length groups" "s \<in> set (groups ! j)" for j
  proof -
    have "groups ! j = groups ! i"
    proof (rule ccontr)
      assume "groups ! j \<noteq> groups ! i"
      then have "set (groups ! j) \<inter> set (groups ! i) = {}"
        using disj[of "groups ! j" "groups ! i"] that(1) i(1) by simp
      then show False using that(2) g(2) i(2) by auto
    qed
    then show ?thesis
      using dg that(1) i(1) by (simp add: nth_eq_iff_index_eq)
  qed
  then show ?thesis using i g(2) by blast
qed

lemma desc_distinct: "sorted_wrt (>) (xs :: rat list) \<Longrightarrow> distinct xs"
proof -
  assume "sorted_wrt (>) xs"
  then have "sorted_wrt (<) (rev xs)" by (simp add: sorted_wrt_rev)
  then have "distinct (rev xs)" by (simp add: strict_sorted_iff)
  then show ?thesis by simp
qed

lemma cluster_sizes_partition:
  assumes "0 \<le> tolerance"
  shows "\<exists>groups. cluster_loop tolerance (rounded_sizes nd fs) = Inr groups
     \<and> cluster_partition_of (rounded_sizes nd fs) groups
         (cluster_sizes tolerance (rounded_sizes nd fs))"
proof -
  let ?sizes = "rounded_sizes nd fs"
  have desc: "sorted_wrt (>) ?sizes" by (rule rounded_sizes_desc)
  from cluster_loop_sorted[OF assms desc] obtain groups where
    g: "cluster_loop tolerance ?sizes = Inr groups" "concat groups = ?sizes"
       "[] \<notin> set groups" "sorted_wrt (>) (map mean groups)"
    by blast
  have "distinct (concat groups)" unfolding g(2) using desc by (rule desc_distinct)
  then have one: "\<forall>s \<in> set ?sizes. \<exists>!i. i < length groups \<and> s \<in> set (groups ! i)"
    using exactly_one_group[of groups] g(2,3) by simp
  have cs: "cluster_sizes tolerance ?sizes = Inr (map mean groups)"
    by (simp add: cluster_sizes_def g(1) sort_desc_id[OF g(4)])
  have "cluster_partition_of ?sizes groups (cluster_sizes tolerance ?sizes)"
    unfolding cluster_partition_of_def using g(2) one cs g(4) by (intro conjI)
  with g(1) show ?thesis by blast
qed

text \<open>
  Claim C5. For every list of font sizes and every tolerance that is not negative (the
  callers use 0.5 and 0.3), the clusterer returns; on the rounded, de-duplicated, descending
  sizes its loop splits the list into consecutive groups, so every size belongs to exactly
  one cluster; and the returned list, the means of the groups, is strictly descending. This
  holds for \<open>cluster_font_sizes\<close> of all three iterations.
\<close>

theorem cluster_partition:
  assumes "0 \<le> tolerance"
  shows "(\<exists>groups. cluster_loop tolerance (rounded_sizes 2 (map font_size els)) = Inr groups
            \<and> cluster_partition_of (rounded_sizes 2 (map font_size els)) groups
                (cluster_font_sizes1 tolerance els))
     \<and> (\<exists>groups. cluster_loop tolerance
                     (rounded_sizes 2 (map font_size (filter (\<lambda>el. font_size el \<noteq> 0) els)))
                   = Inr groups
            \<and> cluster_partition_of
                (rounded_sizes 2 (map font_size (filter (\<lambda>el. font_size el \<noteq> 0) els))) groups
                (cluster_font_sizes2 tolerance els))
     \<and> (\<exists>groups. cluster_loop tolerance (rounded_sizes 1 (map font_size els)) = Inr groups
            \<and> cluster_partition_of (rounded_sizes 1 (map font_size els)) groups
                (cluster_font_sizes3 tolerance els))"
  unfolding cluster_font_sizes1_def cluster_font_sizes2_def cluster_font_sizes3_def
  by (intro conjI cluster_sizes_partition[OF assms])

theorem cluster_partition_witness:
  "(0::rat) \<le> 1 / 2
   \<and> rounded_sizes 2 (map font_size c5_els) = [206 / 10, 202 / 10, 201 / 10, 20, 12]
   \<and> cluster_loop (1 / 2) (rounded_sizes 2 (map font_size c5_els))
       = Inr [[206 / 10, 202 / 10, 201 / 10], [20], [12]]
   \<and> cluster_partition_of (rounded_sizes 2 (map font_size c5_els))
        [[206 / 10, 202 / 10, 201 / 10], [20], [12]] (cluster_font_sizes1 (1 / 2) c5_els)
   \<and> cluster_font_sizes1 (1 / 2) c5_els = Inr [203 / 10, 20, 12]"
proof -
  have h: "(0::rat) \<le> 1 / 2" by simp
  have r: "rounded_sizes 2 (map font_size c5_els) = [206 / 10, 202 / 10, 201 / 10, 20, 12]"
    by code_simp
  have l: "cluster_loop (1 / 2) (rounded_sizes 2 (map font_size c5_els))
       = Inr [[206 / 10, 202 / 10, 201 / 10], [20], [12]]"
    by code_simp
  have c: "cluster_font_sizes1 (1 / 2) c5_els = Inr [203 / 10, 20, 12]"
    by code_simp
  from cluster_partition[OF h, of c5_els, THEN conjunct1] l
  have "cluster_partition_of (rounded_sizes 2 (map font_size c5_els))
        [[206 / 10, 202 / 10, 201 / 10], [20], [12]] (cluster_font_sizes1 (1 / 2) c5_els)"
    by auto
  with h r l c show ?thesis by (intro conjI)
qed

subsection \<open>What the numbering patterns accept\<close>

text \<open>
  The patterns are compared with a description by parsing: \<open>take_int\<close> reads a leading
  integer, \<open>dot_segment\<close> a period and an integer, \<open>path_rest k\<close> a path of \<open>k\<close> integers.
\<close>

lemma star_cls_decomp:
  "\<exists>bs. star_cls p s = dropWhile p s # bs \<and> (\<forall>b \<in> set bs. b \<noteq> [] \<and> p (hd b))"
proof (induction s)
  case Nil
  then show ?case by simp
next
  case (Cons c cs)
  then obtain bs where bs: "star_cls p cs = dropWhile p cs # bs" "\<forall>b \<in> set bs. b \<noteq> [] \<and> p (hd b)"
    by blast
  show ?case
  proof (cases "p c")
    case True
    then have "star_cls p (c # cs) = dropWhile p (c # cs) # (bs @ [c # cs])"
      using bs(1) by simp
    moreover have "\<forall>b \<in> set (bs @ [c # cs]). b \<noteq> [] \<and> p (hd b)"
      using bs(2) True by simp
    ultimately show ?thesis by blast
  next
    case False
    then show ?thesis by simp
  qed
qed

lemma plus_cls_decomp:
  assumes "p c"
  shows "\<exists>bs. plus_cls p (c # cs) = dropWhile p cs # bs \<and> (\<forall>b \<in> set bs. b \<noteq> [] \<and> p (hd b))"
  using star_cls_decomp[of p cs] assms by (simp add: plus_cls_def)

lemma plus_cls_fail: "s = [] \<or> \<not> p (hd s) \<Longrightarrow> plus_cls p s = []"
  by (cases s) (auto simp: plus_cls_def)

lemma concat_map_rejected:
  "\<forall>b \<in> set bs. k b = [] \<Longrightarrow> concat (map k bs) = []"
  by (induction bs) auto

lemma seq_plus_rejects:
  assumes "rejects p k"
  shows "seq (plus_cls p) k s
           = (case s of [] \<Rightarrow> [] | c # cs \<Rightarrow> if p c then k (dropWhile p cs) else [])"
proof (cases s)
  case Nil
  then show ?thesis by (simp add: seq_def plus_cls_def)
next
  case (Cons c cs)
  show ?thesis
  proof (cases "p c")
    case True
    from plus_cls_decomp[of p c cs, OF True] obtain bs where
      bs: "plus_cls p (c # cs) = dropWhile p cs # bs" "\<forall>b \<in> set bs. b \<noteq> [] \<and> p (hd b)"
      by blast
    have "\<forall>b \<in> set bs. k b = []" using bs(2) assms by (auto simp: rejects_def)
    then have "concat (map k bs) = []" by (rule concat_map_rejected)
    then show ?thesis using Cons True bs(1) by (simp add: seq_def)
  next
    case False
    then show ?thesis using Cons by (simp add: seq_def plus_cls_def)
  qed
qed

lemma seq_digits_rejects:
  assumes "rejects is_digit k"
  shows "seq (plus_cls is_digit) k s = (case take_int s of None \<Rightarrow> [] | Some r \<Rightarrow> k r)"
  unfolding seq_plus_rejects[OF assms] take_int_def
  by (simp split: list.splits)

lemma seq_assoc: "seq (seq a b) c = seq a (seq b c)"
proof (rule ext)
  fix s
  have "concat (map c (concat (map b xs))) = concat (map (\<lambda>x. concat (map c (b x))) xs)" for xs
    by (induction xs) simp_all
  moreover have "seq b c = (\<lambda>x. concat (map c (b x)))"
    by (rule ext) (simp add: seq_def)
  ultimately show "seq (seq a b) c s = seq a (seq b c) s"
    by (simp add: seq_def)
qed

lemma digit_not_space: "is_digit c \<Longrightarrow> \<not> is_space c"
  by (auto simp: is_digit_def is_space_def Let_def)

lemma digit_not_dot: "is_digit c \<Longrightarrow> c \<noteq> CHR ''.''"
  by (auto simp: is_digit_def)

lemma dot_not_space: "\<not> is_space CHR ''.''"
  by (simp add: is_space_def)

lemma star_cls_nonempty: "star_cls p s \<noteq> []"
  using star_cls_decomp[of p s] by auto

lemma plus_cls_nonempty_iff: "plus_cls p s \<noteq> [] \<longleftrightarrow> (s \<noteq> [] \<and> p (hd s))"
  by (cases s) (auto simp: plus_cls_def star_cls_nonempty)

lemma seq_dot:
  "seq (cls is_dot) k r = (case r of [] \<Rightarrow> [] | c # cs \<Rightarrow> if c = CHR ''.'' then k cs else [])"
  by (simp add: seq_def cls_def is_dot_def split: list.splits)

lemma tail3_nonempty:
  "seq (opt (cls is_dot)) (plus_cls is_space) r \<noteq> [] \<longleftrightarrow> sep_main3 r"
proof (cases r)
  case Nil
  then show ?thesis by (simp add: seq_def opt_def cls_def plus_cls_def sep_main3_def)
next
  case (Cons c cs)
  show ?thesis
  proof (cases "c = CHR ''.''")
    case True
    then show ?thesis
      using Cons dot_not_space
      by (cases cs) (auto simp: seq_def opt_def cls_def plus_cls_def sep_main3_def is_dot_def
          star_cls_nonempty)
  next
    case False
    then show ?thesis
      using Cons
      by (auto simp: seq_def opt_def cls_def plus_cls_def sep_main3_def is_dot_def
          star_cls_nonempty)
  qed
qed

lemma rejects_tail3: "rejects is_digit (seq (opt (cls is_dot)) (plus_cls is_space))"
  unfolding rejects_def
proof (intro allI impI)
  fix r assume r: "r \<noteq> [] \<and> is_digit (hd r)"
  then have "\<not> sep_main3 r"
    using digit_not_space[of "hd r"] digit_not_dot[of "hd r"]
    by (cases r) (auto simp: sep_main3_def)
  then show "seq (opt (cls is_dot)) (plus_cls is_space) r = []"
    using tail3_nonempty[of r] by simp
qed

lemma rejects_seq_dot: "rejects is_digit (seq (cls is_dot) k)"
  unfolding rejects_def seq_dot
  using digit_not_dot by (auto split: list.splits)

lemma rejects_funpow:
  "rejects is_digit k \<Longrightarrow> rejects is_digit ((seq dot_int ^^ n) k)"
  by (cases n) (simp_all add: dot_int_def seq_assoc rejects_seq_dot)

lemma segments_then:
  assumes "rejects is_digit k"
  shows "(seq dot_int ^^ n) k r = (case more_segments n r of None \<Rightarrow> [] | Some r' \<Rightarrow> k r')"
proof (induction n arbitrary: r)
  case 0
  show ?case by simp
next
  case (Suc n)
  have rj: "rejects is_digit ((seq dot_int ^^ n) k)" using assms by (rule rejects_funpow)
  have "(seq dot_int ^^ Suc n) k r = seq (cls is_dot) (seq (plus_cls is_digit) ((seq dot_int ^^ n) k)) r"
    by (simp add: dot_int_def seq_assoc)
  also have "\<dots> = (case r of [] \<Rightarrow> [] | c # cs \<Rightarrow>
       if c = CHR ''.'' then (case take_int cs of None \<Rightarrow> [] | Some r' \<Rightarrow> (seq dot_int ^^ n) k r') else [])"
    by (simp only: seq_dot seq_digits_rejects[OF rj])
  also have "\<dots> = (case more_segments (Suc n) r of None \<Rightarrow> [] | Some r' \<Rightarrow> k r')"
    by (simp add: Suc.IH dot_segment_def split: list.splits option.splits)
  finally show ?case .
qed

lemma seq_dotted: "seq (dotted n) k = seq (plus_cls is_digit) ((seq dot_int ^^ n) k)"
proof (induction n arbitrary: k)
  case 0
  show ?case by (simp add: dotted_def)
next
  case (Suc n)
  have "dotted (Suc n) = seq (dotted n) dot_int"
    by (simp add: dotted_def dot_int_def)
  then have "seq (dotted (Suc n)) k = seq (dotted n) (seq dot_int k)"
    by (simp add: seq_assoc)
  also have "\<dots> = seq (plus_cls is_digit) ((seq dot_int ^^ n) (seq dot_int k))"
    by (rule Suc.IH)
  also have "(seq dot_int ^^ n) (seq dot_int k) = (seq dot_int ^^ Suc n) k"
    by (simp add: funpow_swap1)
  finally show ?case .
qed

lemma path_then:
  assumes "rejects is_digit k"
  shows "seq (dotted n) k t = (case path_rest (Suc n) t of None \<Rightarrow> [] | Some r \<Rightarrow> k r)"
proof -
  have rj: "rejects is_digit ((seq dot_int ^^ n) k)" using assms by (rule rejects_funpow)
  show ?thesis
    unfolding seq_dotted seq_digits_rejects[OF rj] path_rest_def segments_then[OF assms]
    by (simp split: option.splits)
qed

lemma numbering_pattern3_match:
  "re_match (numbering_pattern3 n) t
     = (case path_rest (Suc n) t of None \<Rightarrow> False | Some r \<Rightarrow> sep_main3 r)"
  unfolding re_match_def numbering_pattern3_def path_then[OF rejects_tail3]
  by (simp add: tail3_nonempty split: option.splits)

lemma find_numbering_level3_eq:
  "find_numbering_level3 txt = numbering_with sep_main3 (strip txt)"
  unfolding find_numbering_level3_def numbering_with_def Let_def numbering_pattern3_match
  by (simp add: numeral_2_eq_2 numeral_3_eq_3)

lemma dot_int_digit_start: "digit_start b \<Longrightarrow> dot_int b = []"
  using rejects_seq_dot[of "plus_cls is_digit"]
  by (simp add: rejects_def dot_int_def digit_start_def)

lemma concat_map_singletons: "\<forall>b \<in> set bs. k b = [b] \<Longrightarrow> concat (map k bs) = bs"
  by (induction bs) auto

lemma plus_digits_decomp:
  "\<exists>bs. plus_cls is_digit t = (case take_int t of None \<Rightarrow> [] | Some r \<Rightarrow> r # bs)
        \<and> (\<forall>b \<in> set bs. digit_start b)"
proof (cases t)
  case Nil
  then show ?thesis by (intro exI[of _ "[]"]) (simp add: plus_cls_def take_int_def)
next
  case (Cons c cs)
  show ?thesis
  proof (cases "is_digit c")
    case True
    from plus_cls_decomp[of is_digit c cs, OF True] obtain bs where
      "plus_cls is_digit (c # cs) = dropWhile is_digit cs # bs"
      "\<forall>b \<in> set bs. b \<noteq> [] \<and> is_digit (hd b)"
      by blast
    then show ?thesis using Cons True
      by (intro exI[of _ bs]) (simp add: take_int_def digit_start_def)
  next
    case False
    then show ?thesis using Cons
      by (intro exI[of _ "[]"]) (simp add: plus_cls_def take_int_def)
  qed
qed

lemma seq_digits_passes:
  assumes "\<And>b. digit_start b \<Longrightarrow> k b = [b]"
  shows "\<exists>bs. seq (plus_cls is_digit) k t
            = (case take_int t of None \<Rightarrow> [] | Some r \<Rightarrow> k r @ bs)
          \<and> (\<forall>b \<in> set bs. digit_start b)"
proof -
  obtain bs where p: "plus_cls is_digit t = (case take_int t of None \<Rightarrow> [] | Some r \<Rightarrow> r # bs)"
    and bs: "\<forall>b \<in> set bs. digit_start b"
    using plus_digits_decomp[of t] by blast
  have c: "concat (map k bs) = bs"
    using bs assms by (intro concat_map_singletons) simp
  have "seq (plus_cls is_digit) k t = (case take_int t of None \<Rightarrow> [] | Some r \<Rightarrow> k r @ bs)"
    by (cases "take_int t") (simp_all add: seq_def p c)
  with bs show ?thesis by blast
qed

lemma dot_int_decomp:
  "\<exists>bs. dot_int r = (case dot_segment r of None \<Rightarrow> [] | Some r' \<Rightarrow> r' # bs)
        \<and> (\<forall>b \<in> set bs. digit_start b)"
proof (cases r)
  case Nil
  then show ?thesis by (intro exI[of _ "[]"]) (simp add: dot_int_def seq_dot dot_segment_def)
next
  case (Cons c cs)
  show ?thesis
  proof (cases "c = CHR ''.''")
    case True
    then have "dot_int r = plus_cls is_digit cs"
      using Cons by (simp add: dot_int_def seq_dot)
    moreover have "dot_segment r = take_int cs"
      using Cons True by (simp add: dot_segment_def)
    ultimately show ?thesis
      using plus_digits_decomp[of cs] by simp
  next
    case False
    then show ?thesis using Cons
      by (intro exI[of _ "[]"]) (simp add: dot_int_def seq_dot dot_segment_def)
  qed
qed

lemma more_segments_dot_start: "dot_segment r = Some r' \<Longrightarrow> dot_start r"
  by (cases r) (auto simp: dot_start_def dot_segment_def split: if_splits)

lemma opt_dot_int_digit_start: "digit_start b \<Longrightarrow> opt dot_int b = [b]"
  by (simp add: opt_def dot_int_digit_start)

lemma rep02_digit_start: "digit_start b \<Longrightarrow> rep02 dot_int b = [b]"
  by (simp add: rep02_def opt_def seq_def dot_int_digit_start)

lemma rep02_decomp:
  "\<exists>rs. rep02 dot_int r0
      = (case dot_segment r0 of
           None \<Rightarrow> [r0]
         | Some r2 \<Rightarrow> (case dot_segment r2 of None \<Rightarrow> r2 # rs | Some r4 \<Rightarrow> r4 # rs))
     \<and> (\<forall>x \<in> set rs. digit_start x \<or> dot_start x)"
proof (cases "dot_segment r0")
  case None
  then have "dot_int r0 = []" using dot_int_decomp[of r0] by auto
  then have "rep02 dot_int r0 = [r0]" by (simp add: rep02_def opt_def seq_def)
  then show ?thesis using None by (intro exI[of _ "[]"]) simp
next
  case (Some r2)
  then obtain bs1 where b1: "dot_int r0 = r2 # bs1" "\<forall>b \<in> set bs1. digit_start b"
    using dot_int_decomp[of r0] by auto
  have "concat (map (opt dot_int) bs1) = bs1"
    using b1(2) by (intro concat_map_singletons) (simp add: opt_dot_int_digit_start)
  then have r: "rep02 dot_int r0 = dot_int r2 @ [r2] @ bs1 @ [r0]"
    by (simp add: rep02_def opt_def seq_def b1(1))
  have d0: "dot_start r0" using Some by (rule more_segments_dot_start)
  show ?thesis
  proof (cases "dot_segment r2")
    case None
    then have "dot_int r2 = []" using dot_int_decomp[of r2] by auto
    then have "rep02 dot_int r0 = r2 # (bs1 @ [r0])" using r by simp
    moreover have "\<forall>x \<in> set (bs1 @ [r0]). digit_start x \<or> dot_start x"
      using b1(2) d0 by auto
    ultimately show ?thesis using Some None by auto
  next
    case (Some r4)
    then obtain bs3 where b3: "dot_int r2 = r4 # bs3" "\<forall>b \<in> set bs3. digit_start b"
      using dot_int_decomp[of r2] by auto
    have d2: "dot_start r2" using Some by (rule more_segments_dot_start)
    have "rep02 dot_int r0 = r4 # (bs3 @ [r2] @ bs1 @ [r0])" using r b3(1) by simp
    moreover have "\<forall>x \<in> set (bs3 @ [r2] @ bs1 @ [r0]). digit_start x \<or> dot_start x"
      using b1(2) b3(2) d0 d2 by auto
    ultimately show ?thesis using Some \<open>dot_segment r0 = Some r2\<close> by auto
  qed
qed

lemma numbering_group_decomp:
  "\<exists>rs. numbering_group t = (case longest_path t of None \<Rightarrow> [] | Some (k, r) \<Rightarrow> r # rs)
        \<and> (\<forall>x \<in> set rs. digit_start x \<or> dot_start x)"
proof -
  obtain bs where bs: "numbering_group t
        = (case take_int t of None \<Rightarrow> [] | Some r \<Rightarrow> rep02 dot_int r @ bs)"
      "\<forall>b \<in> set bs. digit_start b"
    using seq_digits_passes[of "rep02 dot_int" t] rep02_digit_start
    unfolding numbering_group_def dot_int_def[symmetric] by blast
  show ?thesis
  proof (cases "take_int t")
    case None
    then show ?thesis using bs(1) by (intro exI[of _ "[]"]) (simp add: longest_path_def)
  next
    case (Some r0)
    obtain rs where rs: "rep02 dot_int r0
      = (case dot_segment r0 of
           None \<Rightarrow> [r0]
         | Some r2 \<Rightarrow> (case dot_segment r2 of None \<Rightarrow> r2 # rs | Some r4 \<Rightarrow> r4 # rs))"
      "\<forall>x \<in> set rs. digit_start x \<or> dot_start x"
      using rep02_decomp[of r0] by blast
    have all: "\<forall>x \<in> set (rs @ bs). digit_start x \<or> dot_start x"
      using rs(2) bs(2) by auto
    have all': "\<forall>x \<in> set bs. digit_start x \<or> dot_start x"
      using bs(2) by auto
    show ?thesis
    proof (cases "dot_segment r0")
      case None
      then have "numbering_group t = r0 # bs" using bs(1) Some rs(1) by simp
      then show ?thesis using Some None all' by (auto simp: longest_path_def)
    next
      case r2: (Some r2)
      show ?thesis
      proof (cases "dot_segment r2")
        case None
        then have "numbering_group t = r2 # (rs @ bs)" using bs(1) Some rs(1) r2 by simp
        then show ?thesis using Some None r2 all by (auto simp: longest_path_def)
      next
        case (Some r4)
        then have "numbering_group t = r4 # (rs @ bs)"
          using bs(1) \<open>take_int t = Some r0\<close> rs(1) r2 by simp
        then show ?thesis
          using Some \<open>take_int t = Some r0\<close> r2 all by (auto simp: longest_path_def)
      qed
    qed
  qed
qed

lemma is_sep_not_digit: "is_sep c \<Longrightarrow> \<not> is_digit c"
  by (auto simp: is_sep_def is_digit_def)

lemma is_sep_not_dot: "is_sep c \<Longrightarrow> c \<noteq> CHR ''.''"
  by (auto simp: is_sep_def)

lemma sep_main2_iff: "plus_cls is_sep r \<noteq> [] \<longleftrightarrow> sep_main2 r"
  by (cases r) (simp_all add: plus_cls_nonempty_iff sep_main2_def)

lemma sep_main2_rejects: "digit_start x \<or> dot_start x \<Longrightarrow> \<not> sep_main2 x"
  using is_sep_not_digit is_sep_not_dot
  by (cases x) (auto simp: sep_main2_def digit_start_def dot_start_def)

lemma count_dots_digits: "count_list (takeWhile is_digit s) CHR ''.'' = 0"
  using digit_not_dot by (induction s) auto

lemma take_int_split:
  assumes "take_int t = Some r"
  shows "\<exists>d. t = d @ r \<and> count_list d CHR ''.'' = 0"
proof -
  from assms obtain c cs where t: "t = c # cs" "is_digit c" "r = dropWhile is_digit cs"
    by (cases t) (auto simp: take_int_def split: if_splits)
  have "t = (c # takeWhile is_digit cs) @ r" using t by simp
  moreover have "count_list (c # takeWhile is_digit cs) CHR ''.'' = 0"
    using count_dots_digits[of cs] digit_not_dot[OF t(2)] by simp
  ultimately show ?thesis by blast
qed

lemma more_segments_split:
  assumes "dot_segment r = Some r'"
  shows "\<exists>d. r = d @ r' \<and> count_list d CHR ''.'' = 1"
proof -
  from assms obtain cs where r: "r = CHR ''.'' # cs" "take_int cs = Some r'"
    by (cases r) (auto simp: dot_segment_def split: if_splits)
  from take_int_split[OF r(2)] obtain d where d: "cs = d @ r'" "count_list d CHR ''.'' = 0"
    by blast
  have "r = (CHR ''.'' # d) @ r'" using r(1) d(1) by simp
  moreover have "count_list (CHR ''.'' # d) CHR ''.'' = 1" using d(2) by simp
  ultimately show ?thesis by blast
qed

lemma longest_path_split:
  assumes "longest_path t = Some (k, r)"
  shows "\<exists>d. t = d @ r \<and> count_list d CHR ''.'' + 1 = k \<and> k \<le> 3"
proof -
  from assms obtain r0 where r0: "take_int t = Some r0"
    by (auto simp: longest_path_def split: option.splits)
  from take_int_split[OF r0] obtain d1 where d1: "t = d1 @ r0" "count_list d1 CHR ''.'' = 0"
    by blast
  show ?thesis
  proof (cases "dot_segment r0")
    case None
    then have "k = 1" "r = r0" using assms r0 by (simp_all add: longest_path_def)
    then show ?thesis using d1 by auto
  next
    case (Some r2)
    from more_segments_split[OF Some] obtain d2 where
      d2: "r0 = d2 @ r2" "count_list d2 CHR ''.'' = 1" by blast
    show ?thesis
    proof (cases "dot_segment r2")
      case None
      then have "k = 2" "r = r2" using assms r0 Some by (simp_all add: longest_path_def)
      moreover have "t = (d1 @ d2) @ r2" using d1(1) d2(1) by simp
      moreover have "count_list (d1 @ d2) CHR ''.'' + 1 = 2" using d1(2) d2(2) by simp
      ultimately show ?thesis by (intro exI[of _ "d1 @ d2"]) simp
    next
      case r4: (Some r4)
      from more_segments_split[OF r4] obtain d3 where
        d3: "r2 = d3 @ r4" "count_list d3 CHR ''.'' = 1" by blast
      have "k = 3" "r = r4" using assms r0 Some r4 by (simp_all add: longest_path_def)
      moreover have "t = (d1 @ d2 @ d3) @ r4" using d1(1) d2(1) d3(1) by simp
      moreover have "count_list (d1 @ d2 @ d3) CHR ''.'' + 1 = 3"
        using d1(2) d2(2) d3(2) by simp
      ultimately show ?thesis by (intro exI[of _ "d1 @ d2 @ d3"]) simp
    qed
  qed
qed

lemma level_of_group:
  assumes "longest_path t = Some (k, r)"
  shows "level_of_numbering (take (length t - length r) t) = k"
proof -
  from longest_path_split[OF assms] obtain d where
    d: "t = d @ r" "count_list d CHR ''.'' + 1 = k" "k \<le> 3" by blast
  have "take (length t - length r) t = d" using d(1) by simp
  then show ?thesis using d(2,3) by (simp add: level_of_numbering_def Let_def)
qed

lemma find_numbering_level1_longest:
  "find_numbering_level1 txt = map_option fst (longest_path (strip txt))"
proof -
  let ?t = "strip txt"
  obtain rs where g: "numbering_group ?t
      = (case longest_path ?t of None \<Rightarrow> [] | Some (k, r) \<Rightarrow> r # rs)"
    using numbering_group_decomp[of ?t] by blast
  have all: "filter (\<lambda>r. star_cls is_sep r \<noteq> []) xs = xs" for xs
    by (simp add: star_cls_nonempty)
  show ?thesis
  proof (cases "longest_path ?t")
    case None
    then show ?thesis
      using g by (simp add: find_numbering_level1_def re_match_group1_def)
  next
    case (Some kr)
    obtain k r where kr: "kr = (k, r)" by (cases kr)
    have "re_match_group1 numbering_group (star_cls is_sep) ?t
        = Some (take (length ?t - length r) ?t)"
      using g Some kr by (simp add: re_match_group1_def all)
    then show ?thesis
      using Some kr level_of_group[of ?t k r] by (simp add: find_numbering_level1_def)
  qed
qed

lemma find_numbering_level2_longest:
  "find_numbering_level2 txt
     = (case longest_path (strip txt) of
          None \<Rightarrow> None
        | Some (k, r) \<Rightarrow> if sep_main2 r then Some k else None)"
proof -
  let ?t = "strip txt"
  obtain rs where g: "numbering_group ?t
      = (case longest_path ?t of None \<Rightarrow> [] | Some (k, r) \<Rightarrow> r # rs)"
    and rs: "\<forall>x \<in> set rs. digit_start x \<or> dot_start x"
    using numbering_group_decomp[of ?t] by blast
  have none: "filter (\<lambda>r. plus_cls is_sep r \<noteq> []) rs = []"
    using rs sep_main2_rejects by (auto simp: filter_empty_conv sep_main2_iff)
  show ?thesis
  proof (cases "longest_path ?t")
    case None
    then show ?thesis
      using g by (simp add: find_numbering_level2_def re_match_group1_def)
  next
    case (Some kr)
    obtain k r where kr: "kr = (k, r)" by (cases kr)
    have "re_match_group1 numbering_group (plus_cls is_sep) ?t
        = (if sep_main2 r then Some (take (length ?t - length r) ?t) else None)"
      using g Some kr none by (simp add: re_match_group1_def sep_main2_iff)
    then show ?thesis
      using Some kr level_of_group[of ?t k r] by (simp add: find_numbering_level2_def)
  qed
qed

lemma path_rest_simps:
  "path_rest 1 t = take_int t"
  "path_rest 2 t = (case take_int t of None \<Rightarrow> None | Some r \<Rightarrow> dot_segment r)"
  "path_rest 3 t = (case take_int t of None \<Rightarrow> None | Some r \<Rightarrow>
      (case dot_segment r of None \<Rightarrow> None | Some r' \<Rightarrow> dot_segment r'))"
  by (simp_all add: path_rest_def numeral_2_eq_2 split: option.splits)

lemma numbering_with_longest:
  assumes "\<And>r r'. dot_segment r = Some r' \<Longrightarrow> \<not> separator r"
  shows "numbering_with separator t
     = (case longest_path t of
          None \<Rightarrow> None
        | Some (k, r) \<Rightarrow> if separator r then Some k else None)"
  unfolding numbering_with_def longest_path_def path_rest_simps
  using assms by (auto split: option.splits)

lemma sep_main2_no_dot_int: "dot_segment r = Some r' \<Longrightarrow> \<not> sep_main2 r"
  using more_segments_dot_start[of r r'] sep_main2_rejects[of r] by simp

lemma find_numbering_level2_eq:
  "find_numbering_level2 txt = numbering_with sep_main2 (strip txt)"
  unfolding find_numbering_level2_longest
  using numbering_with_longest[of sep_main2 "strip txt", OF sep_main2_no_dot_int]
  by simp

lemma find_numbering_level1_eq:
  "find_numbering_level1 txt = longest_numbering (strip txt)"
  unfolding find_numbering_level1_longest longest_numbering_def longest_path_def path_rest_simps
  by (auto split: option.splits)

subsection \<open>The contract of the Numbering Analyzer\<close>

text \<open>
  Claim C6 fails as stated, in each iteration in its own way. The first iteration makes the
  separator optional (\<^verbatim>\<open>[ \t\-:]*\<close>), so \<open>1abc\<close> gets depth 1; the second demands one of
  space, tab, dash and colon (\<^verbatim>\<open>[ \t\-:]+\<close>), so the period of \<open>1. Introduction\<close> is no
  separator; the third demands white space after an optional period (\<^verbatim>\<open>\.?\s+\<close>), so
  the dash of \<open>1- Scope\<close> is no separator.
\<close>

theorem numbering_contract_counterexample:
  "find_numbering_level1 ''1abc'' = Some 1 \<and> spec_numbering ''1abc'' = None
   \<and> find_numbering_level2 ''1. Introduction'' = None
   \<and> spec_numbering ''1. Introduction'' = Some 1
   \<and> find_numbering_level3 ''1- Scope'' = None \<and> spec_numbering ''1- Scope'' = Some 1"
  by code_simp

text \<open>
  Claim C6, amended. On the trimmed text, the first iteration returns the number of segments
  of the longest leading path of at most three dot-separated integers, with or without a
  separator, and no signal exactly when the text does not begin with a digit. The second
  returns the depth \<open>k\<close> of a leading path of 1 to 3 integers exactly when a space, a tab, a
  dash or a colon follows the path; the third exactly when a white-space character, or a
  period and a white-space character, follows it. Both return no signal for every other
  text, also for a path of more than three segments.
\<close>

theorem numbering_contract:
  "find_numbering_level1 txt = longest_numbering (strip txt)
   \<and> find_numbering_level2 txt = numbering_with sep_main2 (strip txt)
   \<and> find_numbering_level3 txt = numbering_with sep_main3 (strip txt)"
  by (simp only: find_numbering_level1_eq find_numbering_level2_eq find_numbering_level3_eq
      simp_thms)

lemma space_facts: "is_sep CHR '' ''" "is_space CHR '' ''" "\<not> is_digit CHR '' ''"
  by (simp_all add: is_sep_def is_space_def is_digit_def)

lemma two_level_longest:
  assumes "two_level_form t"
  shows "\<exists>r. longest_path t = Some (2, CHR '' '' # r)"
proof -
  from assms obtain r0 r2 where r: "take_int t = Some r0" "dot_segment r0 = Some r2"
    and "case r2 of [] \<Rightarrow> False | c # _ \<Rightarrow> c = CHR '' ''"
    by (auto simp: two_level_form_def split: option.splits)
  then obtain r' where r2: "r2 = CHR '' '' # r'" by (cases r2) auto
  have "dot_segment r2 = None" unfolding r2 by (simp add: dot_segment_def)
  then show ?thesis using r r2 by (simp add: longest_path_def)
qed

lemma sep_main3_no_dot_int: "dot_segment r = Some r' \<Longrightarrow> \<not> sep_main3 r"
proof -
  assume a: "dot_segment r = Some r'"
  then obtain cs where r: "r = CHR ''.'' # cs" "take_int cs = Some r'"
    by (cases r) (auto simp: dot_segment_def split: if_splits)
  from r(2) obtain c cs' where "cs = c # cs'" "is_digit c"
    by (cases cs) (auto simp: take_int_def split: if_splits)
  then show ?thesis
    using r(1) dot_not_space digit_not_space[of c] by (simp add: sep_main3_def)
qed

lemma two_level_numbering:
  assumes "two_level_form (strip txt)"
  shows "find_numbering_level1 txt = Some 2" "find_numbering_level2 txt = Some 2"
    "find_numbering_level3 txt = Some 2"
proof -
  from two_level_longest[OF assms] obtain r where
    l: "longest_path (strip txt) = Some (2, CHR '' '' # r)" by blast
  show "find_numbering_level1 txt = Some 2"
    by (simp add: find_numbering_level1_longest l)
  show "find_numbering_level2 txt = Some 2"
    by (simp add: find_numbering_level2_longest l sep_main2_def space_facts)
  have "numbering_with sep_main3 (strip txt)
      = (case longest_path (strip txt) of
           None \<Rightarrow> None
         | Some (k, r) \<Rightarrow> if sep_main3 r then Some k else None)"
    by (rule numbering_with_longest) (rule sep_main3_no_dot_int)
  then show "find_numbering_level3 txt = Some 2"
    by (simp add: find_numbering_level3_eq l sep_main3_def space_facts)
qed

lemma heading_loop1_level:
  "e \<in> set (heading_loop1 m font_clusters last_level els) \<Longrightarrow>
     \<exists>lvl0. fst e = numbering_override (find_numbering_level1 (el_text (snd e))) lvl0"
  by (induction els arbitrary: last_level)
     (auto simp: Let_def split: if_splits option.splits)

lemma heading_loop2_level:
  "e \<in> set (heading_loop2 levels title_lines page_offset is_single_page last_level els) \<Longrightarrow>
     \<exists>lvl0. fst e = numbering_override2 (find_numbering_level2 (el_text (snd e))) lvl0"
  by (induction els arbitrary: last_level)
     (auto simp: Let_def split: if_splits option.splits prod.splits)

lemma heading_loop3_level:
  "e \<in> set (heading_loop3 m hfs els) \<Longrightarrow>
     \<exists>lvl0. fst e = numbering_override (find_numbering_level3 (el_text (snd e))) lvl0"
  by (induction els) (auto simp: Let_def split: if_splits option.splits prod.splits)

subsection \<open>Numbering overrides the font size\<close>

lemma take_int_append:
  assumes "d \<noteq> []" "list_all is_digit d" "r = [] \<or> \<not> is_digit (hd r)"
  shows "take_int (d @ r) = Some r"
proof -
  from assms(1) obtain c cs where d: "d = c # cs" by (cases d) auto
  have "dropWhile is_digit (cs @ r) = dropWhile is_digit r"
    using assms(2) d by (intro dropWhile_append2) (simp add: list_all_iff)
  also have "\<dots> = r" using assms(3) by (cases r) auto
  finally show ?thesis using assms(2) d by (simp add: take_int_def)
qed

lemma two_level_formI:
  assumes "d1 \<noteq> []" "list_all is_digit d1" "d2 \<noteq> []" "list_all is_digit d2"
  shows "two_level_form (d1 @ ''.'' @ d2 @ '' '' @ rest)"
proof -
  have dot: "\<not> is_digit CHR ''.''" using digit_not_dot by blast
  have 1: "take_int (d1 @ (''.'' @ d2 @ '' '' @ rest)) = Some (''.'' @ d2 @ '' '' @ rest)"
    using assms(1,2) dot by (intro take_int_append) simp_all
  have 2: "take_int (d2 @ ('' '' @ rest)) = Some ('' '' @ rest)"
    using assms(3,4) space_facts(3) by (intro take_int_append) simp_all
  have "dot_segment (''.'' @ d2 @ '' '' @ rest) = Some ('' '' @ rest)"
    using 2 by (simp add: dot_segment_def)
  then show ?thesis using 1 by (simp add: two_level_form_def)
qed

text \<open>
  Claim C7. In all three iterations, an outline entry whose trimmed text begins with an
  integer, a period, an integer and a space (the form \<open>2.1 Something\<close>) has level H2,
  whatever level the font size of its element maps to.
\<close>

theorem numbering_override_H2:
  assumes "strip (o_text e) = d1 @ ''.'' @ d2 @ '' '' @ rest"
    and "d1 \<noteq> []" and "list_all is_digit d1" and "d2 \<noteq> []" and "list_all is_digit d2"
    and "e \<in> set (assign_headings1 text_elements font_clusters title_font_size)
       \<or> e \<in> set (assign_headings2 text_elements font_clusters title_size title_lines
                     page_offset is_single_page)
       \<or> e \<in> set (assign_headings3 text_elements font_clusters title_font_size)"
  shows "o_level e = H2"
proof -
  have form: "two_level_form (strip (o_text e))"
    unfolding assms(1) using assms(2-5) by (rule two_level_formI)
  from assms(6) consider
    (1) "e \<in> set (assign_headings1 text_elements font_clusters title_font_size)"
  | (2) "e \<in> set (assign_headings2 text_elements font_clusters title_size title_lines
                     page_offset is_single_page)"
  | (3) "e \<in> set (assign_headings3 text_elements font_clusters title_font_size)"
    by blast
  then show ?thesis
  proof cases
    case 1
    then obtain le where le: "le \<in> set (emitted1 text_elements font_clusters title_font_size)"
      "e = entry le" by (auto simp: assign_headings1_def)
    from le(1) obtain lvl0 where
      "fst le = numbering_override (find_numbering_level1 (el_text (snd le))) lvl0"
      unfolding emitted1_def using heading_loop1_level by blast
    moreover have "find_numbering_level1 (el_text (snd le)) = Some 2"
      using form le(2) by (intro two_level_numbering(1)) (simp add: entry_def)
    ultimately show ?thesis using le(2) by (simp add: entry_def numbering_override_def)
  next
    case 2
    then obtain le where le: "le \<in> set (emitted2 text_elements font_clusters title_size
        title_lines page_offset is_single_page)"
      "e = entry2 page_offset is_single_page le" by (auto simp: assign_headings2_def)
    from le(1) obtain lvl0 where
      "fst le = numbering_override2 (find_numbering_level2 (el_text (snd le))) lvl0"
      unfolding emitted2_def using heading_loop2_level by blast
    moreover have "find_numbering_level2 (el_text (snd le)) = Some 2"
      using form le(2) by (intro two_level_numbering(2)) (simp add: entry2_def)
    ultimately show ?thesis using le(2) by (simp add: entry2_def numbering_override2_def)
  next
    case 3
    then obtain le where le: "le \<in> set (emitted3 text_elements font_clusters title_font_size)"
      "e = entry le" by (auto simp: assign_headings3_def)
    from le(1) obtain lvl0 where
      "fst le = numbering_override (find_numbering_level3 (el_text (snd le))) lvl0"
      unfolding emitted3_def Let_def using heading_loop3_level by blast
    moreover have "find_numbering_level3 (el_text (snd le)) = Some 2"
      using form le(2) by (intro two_level_numbering(3)) (simp add: entry_def)
    ultimately show ?thesis using le(2) by (simp add: entry_def numbering_override_def)
  qed
qed

theorem numbering_override_H2_witness:
  "font_size_to_level1 [24, 16] 24 (font_size c7_section) = Some H1
   \<and> strip (o_text \<lparr>o_level = H2, o_text = ''2.1 Scope of work'', o_page = 2\<rparr>)
       = ''2'' @ ''.'' @ ''1'' @ '' '' @ ''Scope of work''
   \<and> \<lparr>o_level = H2, o_text = ''2.1 Scope of work'', o_page = 2\<rparr>
       \<in> set (assign_headings1 [c7_title, c7_section] [24, 16] 24)
   \<and> o_level \<lparr>o_level = H2, o_text = ''2.1 Scope of work'', o_page = 2\<rparr> = H2
   \<and> assign_headings2 [c7_title, c7_section] [24, 16] (Some 24) [''Handbook''] 1 False
       = [\<lparr>o_level = H2, o_text = ''2.1 Scope of work'', o_page = 1\<rparr>]
   \<and> assign_headings3 [c7_title, c7_section] [24, 16] 24
       = [\<lparr>o_level = H2, o_text = ''2.1 Scope of work'', o_page = 2\<rparr>]"
proof -
  let ?e = "\<lparr>o_level = H2, o_text = ''2.1 Scope of work'', o_page = 2\<rparr>"
  have f: "font_size_to_level1 [24, 16] 24 (font_size c7_section) = Some H1" by code_simp
  have s: "strip (o_text ?e) = ''2'' @ ''.'' @ ''1'' @ '' '' @ ''Scope of work''" by code_simp
  have d: "''2'' \<noteq> []" "list_all is_digit ''2''" "''1'' \<noteq> []" "list_all is_digit ''1''"
    by code_simp+
  have m: "?e \<in> set (assign_headings1 [c7_title, c7_section] [24, 16] 24)" by code_simp
  have a2: "assign_headings2 [c7_title, c7_section] [24, 16] (Some 24) [''Handbook''] 1 False
       = [\<lparr>o_level = H2, o_text = ''2.1 Scope of work'', o_page = 1\<rparr>]" by code_simp
  have a3: "assign_headings3 [c7_title, c7_section] [24, 16] 24 = [?e]" by code_simp
  have "o_level ?e = H2"
    by (rule numbering_override_H2[OF s d]) (rule disjI1, rule m)
  with f s m a2 a3 show ?thesis by (intro conjI)
qed

end
